theory Spec2Isabelle
  imports Main "HOL-Library.Word"
begin

section \<open>Strings\<close>

text \<open>
  A Go \<open>string\<close> is a sequence of bytes, and so is \<^typ>\<open>string\<close> here: one
  \<^typ>\<open>char\<close> per byte, \<^term>\<open>length\<close> for Go's \<open>len\<close>. A Go \<open>error\<close> is modelled by
  its message; \<open>nil\<close> is \<^term>\<open>None\<close>.
\<close>

type_synonym error = string

definition rune :: "char \<Rightarrow> nat" where
  "rune c = of_char c"

text \<open>\<open>strings.HasPrefix\<close>, \<open>strings.Contains\<close> and \<open>strings.ContainsAny\<close>.\<close>

definition HasPrefix :: "string \<Rightarrow> string \<Rightarrow> bool" where
  "HasPrefix s p = (take (length p) s = p)"

fun Contains :: "string \<Rightarrow> string \<Rightarrow> bool" where
  "Contains [] sub = (sub = [])"
| "Contains (c # cs) sub = (HasPrefix (c # cs) sub \<or> Contains cs sub)"

definition ContainsAny :: "string \<Rightarrow> string \<Rightarrow> bool" where
  "ContainsAny s chars = (\<exists>c \<in> set s. c \<in> set chars)"

section \<open>Slug validation\<close>

text \<open>
  \<open>isValidSlug\<close> of the comment handler. The loop \<open>for _, c := range slug\<close> walks over
  the runes of the string. Every rune it accepts is ASCII, an ASCII byte always decodes
  to itself, and every byte of a multi-byte or invalid sequence is at least \<open>0x80\<close> and
  yields a rune outside the accepted ranges; so the loop accepts a string exactly when
  every byte passes the test, and the model tests the bytes.
\<close>

definition slug_rune_ok :: "char \<Rightarrow> bool" where
  "slug_rune_ok c =
     ((rune CHR ''a'' \<le> rune c \<and> rune c \<le> rune CHR ''z'') \<or>
      (rune CHR ''A'' \<le> rune c \<and> rune c \<le> rune CHR ''Z'') \<or>
      (rune CHR ''0'' \<le> rune c \<and> rune c \<le> rune CHR ''9'') \<or>
      c = CHR ''-'' \<or> c = CHR ''_'')"

fun slug_loop :: "string \<Rightarrow> bool" where
  "slug_loop [] = True"
| "slug_loop (c # cs) = (if \<not> slug_rune_ok c then False else slug_loop cs)"

definition isValidSlug :: "string \<Rightarrow> bool" where
  "isValidSlug slug =
     (if slug = [] then False
      else if Contains slug ''..'' then False
      else if ContainsAny slug [CHR ''/'', CHR 0x5C] then False
      else slug_loop slug)"

text \<open>The alphabet the specification allows in a slug.\<close>

definition slug_alphabet :: "char set" where
  "slug_alphabet =
     set ''abcdefghijklmnopqrstuvwxyzABCDEFGHIJKLMNOPQRSTUVWXYZ0123456789-_''"

section \<open>More of the standard library\<close>

text \<open>
  The functions of \<open>strings\<close>, \<open>strconv\<close>, \<open>fmt\<close> and \<open>path/filepath\<close> that the program
  calls, with the behaviour the Go documentation gives them.
\<close>

subsection \<open>White space\<close>

text \<open>
  \<open>strings.TrimSpace\<close> removes the leading and the trailing white-space runes, white space
  being what \<open>unicode.IsSpace\<close> accepts: U+0009 to U+000D, U+0020, U+0085, U+00A0, U+1680,
  U+2000 to U+200A, U+2028, U+2029, U+202F, U+205F and U+3000. \<open>space_runes\<close> lists
  their UTF-8 encodings. A string starts (ends) with a white-space rune exactly when
  it starts (ends) with one of these byte sequences.
\<close>

definition space_runes :: "string list" where
  "space_runes =
     [[CHR 0x09], [CHR 0x0A], [CHR 0x0B], [CHR 0x0C], [CHR 0x0D], [CHR 0x20],
      [CHR 0xC2, CHR 0x85], [CHR 0xC2, CHR 0xA0],
      [CHR 0xE1, CHR 0x9A, CHR 0x80],
      [CHR 0xE2, CHR 0x80, CHR 0x80], [CHR 0xE2, CHR 0x80, CHR 0x81],
      [CHR 0xE2, CHR 0x80, CHR 0x82], [CHR 0xE2, CHR 0x80, CHR 0x83],
      [CHR 0xE2, CHR 0x80, CHR 0x84], [CHR 0xE2, CHR 0x80, CHR 0x85],
      [CHR 0xE2, CHR 0x80, CHR 0x86], [CHR 0xE2, CHR 0x80, CHR 0x87],
      [CHR 0xE2, CHR 0x80, CHR 0x88], [CHR 0xE2, CHR 0x80, CHR 0x89],
      [CHR 0xE2, CHR 0x80, CHR 0x8A],
      [CHR 0xE2, CHR 0x80, CHR 0xA8], [CHR 0xE2, CHR 0x80, CHR 0xA9],
      [CHR 0xE2, CHR 0x80, CHR 0xAF],
      [CHR 0xE2, CHR 0x81, CHR 0x9F],
      [CHR 0xE3, CHR 0x80, CHR 0x80]]"

definition HasSuffix :: "string \<Rightarrow> string \<Rightarrow> bool" where
  "HasSuffix s p = (length p \<le> length s \<and> drop (length s - length p) s = p)"

definition leading_space :: "string \<Rightarrow> nat" where
  "leading_space s =
     (case find (HasPrefix s) space_runes of None \<Rightarrow> 0 | Some e \<Rightarrow> length e)"

definition trailing_space :: "string \<Rightarrow> nat" where
  "trailing_space s =
     (case find (HasSuffix s) space_runes of None \<Rightarrow> 0 | Some e \<Rightarrow> length e)"

lemma leading_space_Nil: "leading_space [] = 0"
  by (simp add: leading_space_def space_runes_def HasPrefix_def)

lemma trailing_space_Nil: "trailing_space [] = 0"
  by (simp add: trailing_space_def space_runes_def HasSuffix_def)

function TrimLeft :: "string \<Rightarrow> string" where
  "TrimLeft s =
     (if leading_space s = 0 then s else TrimLeft (drop (leading_space s) s))"
  by pat_completeness auto
termination
proof (relation "measure length")
  fix s :: string
  assume "leading_space s \<noteq> 0"
  then have "s \<noteq> []" using leading_space_Nil by auto
  with \<open>leading_space s \<noteq> 0\<close> show "(drop (leading_space s) s, s) \<in> measure length"
    by simp
qed simp

function TrimRight :: "string \<Rightarrow> string" where
  "TrimRight s =
     (if trailing_space s = 0 then s
      else TrimRight (take (length s - trailing_space s) s))"
  by pat_completeness auto
termination
proof (relation "measure length")
  fix s :: string
  assume "trailing_space s \<noteq> 0"
  then have "s \<noteq> []" using trailing_space_Nil by auto
  with \<open>trailing_space s \<noteq> 0\<close>
  show "(take (length s - trailing_space s) s, s) \<in> measure length"
    by simp
qed simp

declare TrimLeft.simps [simp del] TrimRight.simps [simp del]

definition TrimSpace :: "string \<Rightarrow> string" where
  "TrimSpace s = TrimRight (TrimLeft s)"

subsection \<open>Splitting and joining\<close>

text \<open>
  \<open>strings.Split(s, sep)\<close> and \<open>strings.SplitN(s, sep, 2)\<close> for a separator of one
  byte, and \<open>strings.Join\<close>.
\<close>

fun Split :: "string \<Rightarrow> char \<Rightarrow> string list" where
  "Split [] sep = [[]]"
| "Split (c # cs) sep =
     (if c = sep then [] # Split cs sep
      else (case Split cs sep of [] \<Rightarrow> [[c]] | l # ls \<Rightarrow> (c # l) # ls))"

definition SplitN2 :: "string \<Rightarrow> char \<Rightarrow> string list" where
  "SplitN2 s sep =
     (if sep \<in> set s then [takeWhile (\<lambda>c. c \<noteq> sep) s, tl (dropWhile (\<lambda>c. c \<noteq> sep) s)]
      else [s])"

fun Join_strings :: "string list \<Rightarrow> string \<Rightarrow> string" where
  "Join_strings [] sep = []"
| "Join_strings [e] sep = e"
| "Join_strings (e # es) sep = e @ sep @ Join_strings es sep"

subsection \<open>Numbers\<close>

text \<open>
  An \<open>int64\<close> is an integer between \<open>-2^63\<close> and \<open>2^63 - 1\<close>; arithmetic on it wraps
  around, which \<open>int64\<close> writes out.
\<close>

definition int64 :: "int \<Rightarrow> int" where
  "int64 x = (x + 2 ^ 63) mod 2 ^ 64 - 2 ^ 63"

definition is_digit :: "char \<Rightarrow> bool" where
  "is_digit c = (rune CHR ''0'' \<le> rune c \<and> rune c \<le> rune CHR ''9'')"

definition decimal :: "string \<Rightarrow> int" where
  "decimal s = foldl (\<lambda>n c. 10 * n + (int (rune c) - int (rune CHR ''0''))) 0 s"

text \<open>
  \<open>strconv.ParseInt(s, 10, 64)\<close>: an optional sign, then one or more decimal digits and
  nothing else; a value outside the \<open>int64\<close> range is an error as well. \<open>None\<close> stands
  for a non-nil error.
\<close>

definition ParseInt :: "string \<Rightarrow> int option" where
  "ParseInt s =
     (if s = [] then None
      else
        let neg = (hd s = CHR ''-'');
            ds = (if hd s = CHR ''+'' \<or> hd s = CHR ''-'' then tl s else s)
        in if ds = [] \<or> \<not> list_all is_digit ds then None
           else if \<not> neg \<and> 2 ^ 63 \<le> decimal ds then None
           else if neg \<and> 2 ^ 63 < decimal ds then None
           else Some (if neg then - decimal ds else decimal ds))"

text \<open>The verbs \<open>%d\<close> (of a natural number) and \<open>%x\<close> (of a byte slice) of \<open>fmt\<close>.\<close>

fun itoa :: "nat \<Rightarrow> string" where
  "itoa n =
     (if n < 10 then [''0123456789'' ! n] else itoa (n div 10) @ [''0123456789'' ! (n mod 10)])"

declare itoa.simps [simp del]

definition hex_digit :: "nat \<Rightarrow> char" where
  "hex_digit n = ''0123456789abcdef'' ! n"

definition hex :: "string \<Rightarrow> string" where
  "hex b = concat (map (\<lambda>c. [hex_digit (rune c div 16), hex_digit (rune c mod 16)]) b)"

subsection \<open>Paths\<close>

text \<open>
  \<open>filepath.Clean\<close>, \<open>filepath.Join\<close> and \<open>filepath.Dir\<close> on a system whose separator is
  \<open>/\<close>. \<open>Clean\<close> drops empty and \<open>.\<close> elements, lets a \<open>..\<close> element cancel the
  element before it, drops a \<open>..\<close> that would climb above the root, and returns \<open>.\<close> for
  an empty result.
\<close>

definition clean_step :: "bool \<Rightarrow> string list \<Rightarrow> string \<Rightarrow> string list" where
  "clean_step rooted out c =
     (if c = [] \<or> c = ''.'' then out
      else if c = ''..'' then
        (case out of
           [] \<Rightarrow> if rooted then [] else [''..'']
         | e # rest \<Rightarrow> if e = ''..'' then ''..'' # out else rest)
      else c # out)"

definition Clean :: "string \<Rightarrow> string" where
  "Clean path =
     (if path = [] then ''.''
      else
        let rooted = (hd path = CHR ''/'');
            out = rev (foldl (clean_step rooted) [] (Split path CHR ''/''));
            body = Join_strings out ''/''
        in if rooted then CHR ''/'' # body else if body = [] then ''.'' else body)"

definition Join :: "string list \<Rightarrow> string" where
  "Join elem =
     (case dropWhile (\<lambda>e. e = []) elem of
        [] \<Rightarrow> []
      | es \<Rightarrow> Clean (Join_strings es ''/''))"

definition Dir :: "string \<Rightarrow> string" where
  "Dir path = Clean (rev (dropWhile (\<lambda>c. c \<noteq> CHR ''/'') (rev path)))"

text \<open>
  A string is \<open>blank\<close> when it consists of white-space runes only; this is what the
  specification means by a field that is empty after trimming.
\<close>

inductive blank :: "string \<Rightarrow> bool" where
  blank_Nil: "blank []"
| blank_Cons: "e \<in> set space_runes \<Longrightarrow> blank s \<Longrightarrow> blank (e @ s)"

section \<open>The world outside the program\<close>

text \<open>
  The program runs \<open>git\<close> and \<open>ssh-keyscan\<close>, reads and writes files, reads the clock and
  the random source. None of this is code of the repository, so it is modelled as an
  environment. Every operation that can fail is a \<open>call\<close>; the environment answers a call
  with an error or a value, and the answer may depend on everything that happened
  before. The calls and their answers are recorded, in order, in the \<open>trace\<close> of the
  world, which is how the properties below can speak about the commands a function ran.
  The world also holds the content of the files the program writes. A write that fails
  is taken to leave the file as it was; no property below depends on the content of a
  file after a failed write. Logging is left out, and so are the mutexes: the model runs
  one operation at a time.
\<close>

datatype call =
    Cmd_Run string string string "string list"
  | Cmd_Output string "string list"
  | Os_Stat string
  | Os_MkdirAll string
  | Os_RemoveAll string
  | Os_OpenFile string
  | File_Write string string
  | Os_WriteFile string string
  | Filepath_Glob string
  | Rand_Read nat

datatype val = Done | Data string | Matches "string list"

type_synonym reply = "error + val"

type_synonym history = "(call \<times> reply) list"

text \<open>The calendar time \<open>time.Now().UTC()\<close> returns.\<close>

record Time =
  Year :: nat
  Month :: nat
  Day :: nat
  Hour :: nat
  Minute :: nat
  Second :: nat

record env =
  sys :: "history \<Rightarrow> call \<Rightarrow> reply"
  now_utc :: "history \<Rightarrow> Time"

record world =
  files :: "string \<Rightarrow> string option"
  trace :: history

definition syscall :: "env \<Rightarrow> call \<Rightarrow> world \<Rightarrow> reply \<times> world" where
  "syscall env c w =
     (let r = sys env (trace w) c in (r, w\<lparr>trace := trace w @ [(c, r)]\<rparr>))"

definition err_of :: "reply \<Rightarrow> error option" where
  "err_of r = (case r of Inl e \<Rightarrow> Some e | Inr v \<Rightarrow> None)"

definition data_of :: "val \<Rightarrow> string" where
  "data_of v = (case v of Data d \<Rightarrow> d | _ \<Rightarrow> [])"

definition matches_of :: "val \<Rightarrow> string list" where
  "matches_of v = (case v of Matches ms \<Rightarrow> ms | _ \<Rightarrow> [])"

text \<open>
  \<open>exec.Cmd.Run\<close> in a directory with one more environment variable, and
  \<open>exec.Cmd.Output\<close>, which returns what the command printed.
\<close>

definition cmd_Run ::
  "env \<Rightarrow> string \<Rightarrow> string \<Rightarrow> string \<Rightarrow> string list \<Rightarrow> world \<Rightarrow> error option \<times> world" where
  "cmd_Run env dir var name args w =
     (let (r, w1) = syscall env (Cmd_Run dir var name args) w in (err_of r, w1))"

definition cmd_Output ::
  "env \<Rightarrow> string \<Rightarrow> string list \<Rightarrow> world \<Rightarrow> (error + string) \<times> world" where
  "cmd_Output env name args w =
     (let (r, w1) = syscall env (Cmd_Output name args) w
      in (case r of Inl e \<Rightarrow> Inl e | Inr v \<Rightarrow> Inr (data_of v), w1))"

text \<open>The file operations of \<open>os\<close>.\<close>

definition os_Stat :: "env \<Rightarrow> string \<Rightarrow> world \<Rightarrow> error option \<times> world" where
  "os_Stat env path w = (let (r, w1) = syscall env (Os_Stat path) w in (err_of r, w1))"

definition os_MkdirAll :: "env \<Rightarrow> string \<Rightarrow> world \<Rightarrow> error option \<times> world" where
  "os_MkdirAll env path w =
     (let (r, w1) = syscall env (Os_MkdirAll path) w in (err_of r, w1))"

definition os_RemoveAll :: "env \<Rightarrow> string \<Rightarrow> world \<Rightarrow> error option \<times> world" where
  "os_RemoveAll env path w =
     (let (r, w1) = syscall env (Os_RemoveAll path) w
      in case r of
           Inl e \<Rightarrow> (Some e, w1)
         | Inr v \<Rightarrow>
             (None,
              w1\<lparr>files := (\<lambda>p. if p = path \<or> HasPrefix p (path @ ''/'') then None
                                else files w1 p)\<rparr>))"

definition os_ReadFile :: "string \<Rightarrow> world \<Rightarrow> error + string" where
  "os_ReadFile path w =
     (case files w path of
        None \<Rightarrow> Inl (''open '' @ path @ '': no such file or directory'')
      | Some d \<Rightarrow> Inr d)"

text \<open>\<open>os.WriteFile\<close> creates the file or truncates it, and writes the data.\<close>

definition os_WriteFile :: "env \<Rightarrow> string \<Rightarrow> string \<Rightarrow> world \<Rightarrow> error option \<times> world" where
  "os_WriteFile env path d w =
     (let (r, w1) = syscall env (Os_WriteFile path d) w
      in case r of
           Inl e \<Rightarrow> (Some e, w1)
         | Inr v \<Rightarrow> (None, w1\<lparr>files := (files w1)(path \<mapsto> d)\<rparr>))"

text \<open>
  \<open>os.OpenFile\<close> with the flags \<open>O_APPEND|O_CREATE|O_WRONLY\<close> creates the file when there
  is none and keeps its content otherwise; \<open>Write\<close> on that file adds to its end.
\<close>

definition os_OpenFile_append :: "env \<Rightarrow> string \<Rightarrow> world \<Rightarrow> error option \<times> world" where
  "os_OpenFile_append env path w =
     (let (r, w1) = syscall env (Os_OpenFile path) w
      in case r of
           Inl e \<Rightarrow> (Some e, w1)
         | Inr v \<Rightarrow>
             (None,
              case files w1 path of
                None \<Rightarrow> w1\<lparr>files := (files w1)(path \<mapsto> [])\<rparr>
              | Some d \<Rightarrow> w1))"

definition file_Write :: "env \<Rightarrow> string \<Rightarrow> string \<Rightarrow> world \<Rightarrow> error option \<times> world" where
  "file_Write env path d w =
     (let (r, w1) = syscall env (File_Write path d) w
      in case r of
           Inl e \<Rightarrow> (Some e, w1)
         | Inr v \<Rightarrow>
             (None,
              w1\<lparr>files := (files w1)
                 (path \<mapsto> (case files w1 path of None \<Rightarrow> [] | Some old \<Rightarrow> old) @ d)\<rparr>))"

definition filepath_Glob :: "env \<Rightarrow> string \<Rightarrow> world \<Rightarrow> (error + string list) \<times> world" where
  "filepath_Glob env pattern w =
     (let (r, w1) = syscall env (Filepath_Glob pattern) w
      in (case r of Inl e \<Rightarrow> Inl e | Inr v \<Rightarrow> Inr (matches_of v), w1))"

text \<open>
  \<open>rand.Read\<close> fills the whole slice or returns an error; an answer of another length
  counts as the error of a short read.
\<close>

definition rand_Read :: "env \<Rightarrow> nat \<Rightarrow> world \<Rightarrow> (error + string) \<times> world" where
  "rand_Read env n w =
     (let (r, w1) = syscall env (Rand_Read n) w
      in (case r of
            Inl e \<Rightarrow> Inl e
          | Inr v \<Rightarrow> if length (data_of v) = n then Inr (data_of v) else Inl ''unexpected EOF'',
          w1))"

section \<open>Configuration and the libraries for URLs and YAML\<close>

record Config =
  GitRepo :: string
  Branch :: string
  CommentsPath :: string
  PostsPath :: string
  Port :: string
  AllowedOrigins :: "string list"
  SSHKeyPath :: string
  SSHInsecure :: bool

record Comment =
  Name :: string
  Email :: string
  Body :: string
  Date :: string
  Slug :: string
  ReplyTo :: string

record URL =
  Scheme :: string
  Host :: string
  Path :: string
  RawQuery :: string
  Fragment :: string

text \<open>
  \<open>net/url\<close> and \<open>gopkg.in/yaml.v3\<close> are libraries, not code of the repository. The model
  takes them as a parameter: \<open>url_Parse\<close> is \<open>url.Parse\<close>, \<open>url_Hostname\<close> and \<open>url_String\<close>
  are the methods \<open>Hostname\<close> and \<open>String\<close> of a URL, \<open>url_SetQuery u k v\<close> is the encoded
  query \<open>q.Encode()\<close> after \<open>q := u.Query(); q.Set(k, v)\<close>, and \<open>yaml_Marshal\<close> is
  \<open>yaml.Marshal\<close> on a comment. The properties below hold whatever these functions
  compute.
\<close>

record stdlib =
  url_Parse :: "string \<Rightarrow> error + URL"
  url_Hostname :: "URL \<Rightarrow> string"
  url_String :: "URL \<Rightarrow> string"
  url_SetQuery :: "URL \<Rightarrow> string \<Rightarrow> string \<Rightarrow> string"
  yaml_Marshal :: "Comment \<Rightarrow> error + string"

section \<open>The repository synchronizer\<close>

definition repoDir :: string where
  "repoDir = ''/app/repo''"

definition knownHostsPath :: string where
  "knownHostsPath = ''/app/.ssh/known_hosts''"

definition sshCommand :: "Config \<Rightarrow> string" where
  "sshCommand cfg =
     (if SSHInsecure cfg then
        ''ssh -i '' @ SSHKeyPath cfg @
        '' -o StrictHostKeyChecking=no -o UserKnownHostsFile=/dev/null''
      else ''ssh -i '' @ SSHKeyPath cfg @ '' -o UserKnownHostsFile='' @ knownHostsPath)"

definition run ::
  "env \<Rightarrow> Config \<Rightarrow> string \<Rightarrow> string \<Rightarrow> string list \<Rightarrow> world \<Rightarrow> error option \<times> world" where
  "run env cfg dir name args w =
     cmd_Run env dir (''GIT_SSH_COMMAND='' @ sshCommand cfg) name args w"

subsection \<open>Host keys\<close>

definition hostInKnownHosts :: "string \<Rightarrow> world \<Rightarrow> bool" where
  "hostInKnownHosts host w =
     (case os_ReadFile knownHostsPath w of
        Inl err \<Rightarrow> False
      | Inr d \<Rightarrow>
          list_ex (\<lambda>line. HasPrefix line (host @ '' '') \<or> HasPrefix line (host @ '',''))
            (Split d CHR 0x0A))"

definition scanHostKeys :: "env \<Rightarrow> string \<Rightarrow> world \<Rightarrow> (error + string) \<times> world" where
  "scanHostKeys env host w =
     (let (r, w1) = cmd_Output env ''ssh-keyscan'' [host] w
      in (case r of
            Inl err \<Rightarrow> Inl (''ssh-keyscan '' @ host @ '': '' @ err)
          | Inr out \<Rightarrow> Inr out,
          w1))"

definition scanAndAppendHostKeys :: "env \<Rightarrow> string \<Rightarrow> world \<Rightarrow> error option \<times> world" where
  "scanAndAppendHostKeys env host w =
     (let (r, w1) = scanHostKeys env host w
      in case r of
           Inl err \<Rightarrow> (Some err, w1)
         | Inr out \<Rightarrow>
             (let (mk, w2) = os_MkdirAll env (Dir knownHostsPath) w1
              in case mk of
                   Some err \<Rightarrow> (Some (''creating .ssh dir: '' @ err), w2)
                 | None \<Rightarrow>
                     (let (op, w3) = os_OpenFile_append env knownHostsPath w2
                      in case op of
                           Some err \<Rightarrow> (Some (''opening known_hosts: '' @ err), w3)
                         | None \<Rightarrow>
                             (let (wr, w4) = file_Write env knownHostsPath out w3
                              in case wr of
                                   Some err \<Rightarrow>
                                     (Some (''appending to known_hosts: '' @ err), w4)
                                 | None \<Rightarrow> (None, w4)))))"

definition scanAndWriteHostKeys :: "env \<Rightarrow> string \<Rightarrow> world \<Rightarrow> error option \<times> world" where
  "scanAndWriteHostKeys env host w =
     (let (r, w1) = scanHostKeys env host w
      in case r of
           Inl err \<Rightarrow> (Some err, w1)
         | Inr out \<Rightarrow>
             (let (mk, w2) = os_MkdirAll env (Dir knownHostsPath) w1
              in case mk of
                   Some err \<Rightarrow> (Some (''creating .ssh dir: '' @ err), w2)
                 | None \<Rightarrow>
                     (let (wr, w3) = os_WriteFile env knownHostsPath out w2
                      in case wr of
                           Some err \<Rightarrow> (Some (''writing known_hosts: '' @ err), w3)
                         | None \<Rightarrow> (None, w3))))"

text \<open>
  \<open>extractHost\<close>. In the SSH form the index \<open>parts[1]\<close> is in range, since the branch
  is taken only when the URL contains \<open>@\<close>.
\<close>

definition extractHost :: "stdlib \<Rightarrow> string \<Rightarrow> string" where
  "extractHost lib repo =
     (if Contains repo ''@'' \<and> Contains repo '':'' \<and> \<not> Contains repo ''://'' then
        (let parts = SplitN2 repo CHR ''@'';
             hostPort = SplitN2 (parts ! 1) CHR '':''
         in hostPort ! 0)
      else
        (case url_Parse lib repo of
           Inl err \<Rightarrow> []
         | Inr u \<Rightarrow> url_Hostname lib u))"

definition ensureHostKeys :: "stdlib \<Rightarrow> env \<Rightarrow> Config \<Rightarrow> world \<Rightarrow> error option \<times> world" where
  "ensureHostKeys lib env cfg w =
     (if SSHInsecure cfg then (None, w)
      else
        let host = extractHost lib (GitRepo cfg)
        in if host = [] then
             (Some (''could not extract host from repo URL: '' @ GitRepo cfg), w)
           else if hostInKnownHosts host w then (None, w)
           else scanAndAppendHostKeys env host w)"

definition refreshHostKeys :: "stdlib \<Rightarrow> env \<Rightarrow> Config \<Rightarrow> world \<Rightarrow> error option \<times> world" where
  "refreshHostKeys lib env cfg w =
     (let host = extractHost lib (GitRepo cfg)
      in if host = [] then
           (Some (''could not extract host from repo URL: '' @ GitRepo cfg), w)
         else scanAndWriteHostKeys env host w)"

subsection \<open>Clone and pull\<close>

definition pullLocked :: "env \<Rightarrow> Config \<Rightarrow> world \<Rightarrow> error option \<times> world" where
  "pullLocked env cfg w = run env cfg repoDir ''git'' [''pull'', ''--rebase''] w"

definition Pull :: "env \<Rightarrow> Config \<Rightarrow> world \<Rightarrow> error option \<times> world" where
  "Pull env cfg w = pullLocked env cfg w"

definition cloneArgs :: "Config \<Rightarrow> string list" where
  "cloneArgs cfg =
     [''clone'', ''--branch'', Branch cfg, ''--single-branch'', GitRepo cfg, repoDir]"

text \<open>
  The end of \<open>Clone\<close>, from the test of the clone's error on: the error is returned, or
  the identity of the commits is configured.
\<close>

definition Clone_configure ::
  "env \<Rightarrow> Config \<Rightarrow> error option \<Rightarrow> world \<Rightarrow> error option \<times> world" where
  "Clone_configure env cfg err w =
     (case err of
        Some e \<Rightarrow> (Some (''git clone: '' @ e), w)
      | None \<Rightarrow>
          (let (em, w1) =
                 run env cfg repoDir ''git''
                   [''config'', ''user.email'', ''staticomment@quietlife.net''] w
           in case em of
                Some e \<Rightarrow> (Some (''git config email: '' @ e), w1)
              | None \<Rightarrow>
                  (let (nm, w2) =
                         run env cfg repoDir ''git''
                           [''config'', ''user.name'', ''staticomment''] w1
                   in case nm of
                        Some e \<Rightarrow> (Some (''git config name: '' @ e), w2)
                      | None \<Rightarrow> (None, w2))))"

text \<open>
  The retry of \<open>Clone\<close>: the body of \<open>if err != nil && !g.cfg.SSHInsecure\<close>, entered
  with the error \<open>e\<close> of the first clone.
\<close>

definition Clone_retry ::
  "stdlib \<Rightarrow> env \<Rightarrow> Config \<Rightarrow> error \<Rightarrow> world \<Rightarrow> error option \<times> world" where
  "Clone_retry lib env cfg e w =
     (let (scanErr, w1) = refreshHostKeys lib env cfg w
      in case scanErr of
           Some se \<Rightarrow> (Some (''git clone: '' @ e), w1)
         | None \<Rightarrow>
             (let (rmErr, w2) = os_RemoveAll env repoDir w1
              in case rmErr of
                   Some re \<Rightarrow> (Some (''removing repo dir before retry: '' @ re), w2)
                 | None \<Rightarrow>
                     (let (mkErr, w3) = os_MkdirAll env repoDir w2
                      in case mkErr of
                           Some me \<Rightarrow>
                             (Some (''creating repo dir before retry: '' @ me), w3)
                         | None \<Rightarrow>
                             (let (err, w4) = run env cfg ''/app'' ''git'' (cloneArgs cfg) w3
                              in Clone_configure env cfg err w4))))"

definition Clone :: "stdlib \<Rightarrow> env \<Rightarrow> Config \<Rightarrow> world \<Rightarrow> error option \<times> world" where
  "Clone lib env cfg w =
     (let (warn, w0) = ensureHostKeys lib env cfg w;
          (st, w1) = os_Stat env (Join [repoDir, ''.git'']) w0
      in if st = None then pullLocked env cfg w1
         else
           (let (mk, w2) = os_MkdirAll env repoDir w1
            in case mk of
                 Some e \<Rightarrow> (Some (''creating repo dir: '' @ e), w2)
               | None \<Rightarrow>
                   (let (err, w3) = run env cfg ''/app'' ''git'' (cloneArgs cfg) w2
                    in case err of
                         Some e \<Rightarrow>
                           if \<not> SSHInsecure cfg then Clone_retry lib env cfg e w3
                           else Clone_configure env cfg err w3
                       | None \<Rightarrow> Clone_configure env cfg err w3)))"

subsection \<open>Commit and push\<close>

definition pushMaxRetries :: nat where
  "pushMaxRetries = 3"

text \<open>The loop of \<open>CommitAndPush\<close>, entered with the loop variable \<open>attempt\<close>.\<close>

function push_loop :: "env \<Rightarrow> Config \<Rightarrow> nat \<Rightarrow> world \<Rightarrow> error option \<times> world" where
  "push_loop env cfg attempt w =
     (if attempt < pushMaxRetries then
        (let (err, w1) = run env cfg repoDir ''git'' [''push''] w
         in case err of
              None \<Rightarrow> (None, w1)
            | Some e \<Rightarrow>
                (let (pullErr, w2) = pullLocked env cfg w1
                 in case pullErr of
                      Some pe \<Rightarrow>
                        (let (ab, w3) = run env cfg repoDir ''git'' [''rebase'', ''--abort''] w2
                         in (Some (''git pull during push retry: '' @ pe), w3))
                    | None \<Rightarrow> push_loop env cfg (attempt + 1) w2))
      else (Some (''git push failed after '' @ itoa pushMaxRetries @ '' attempts''), w))"
  by pat_completeness auto
termination
  by (relation "measure (\<lambda>(env, cfg, attempt, w). pushMaxRetries - attempt)") auto

declare push_loop.simps [simp del]

definition CommitAndPush ::
  "env \<Rightarrow> Config \<Rightarrow> string \<Rightarrow> string \<Rightarrow> world \<Rightarrow> error option \<times> world" where
  "CommitAndPush env cfg filePath slug w =
     (let (pl, w1) = pullLocked env cfg w
      in case pl of
           Some e \<Rightarrow> (Some (''git pull before commit: '' @ e), w1)
         | None \<Rightarrow>
             (let (ad, w2) = run env cfg repoDir ''git'' [''add'', filePath] w1
              in case ad of
                   Some e \<Rightarrow> (Some (''git add: '' @ e), w2)
                 | None \<Rightarrow>
                     (let msg = ''Add comment on '' @ slug;
                          (cm, w3) = run env cfg repoDir ''git'' [''commit'', ''-m'', msg] w2
                      in case cm of
                           Some e \<Rightarrow> (Some (''git commit: '' @ e), w3)
                         | None \<Rightarrow> push_loop env cfg 0 w3)))"

definition FullPath :: "string \<Rightarrow> string" where
  "FullPath relPath = Join [repoDir, relPath]"

subsection \<open>Reading the trace\<close>

text \<open>
  The calls that stand for the commands of \<open>git\<close> in the working copy, and the shapes
  the trace of the push loop can take with \<open>n\<close> attempts left: no attempt left; a push
  that succeeds; a push that fails, followed by a pull that fails and by the abort of
  the rebase; a push that fails, followed by a pull that succeeds and by the rest of the
  loop.
\<close>

definition git_call :: "Config \<Rightarrow> string list \<Rightarrow> call" where
  "git_call cfg args = Cmd_Run repoDir (''GIT_SSH_COMMAND='' @ sshCommand cfg) ''git'' args"

definition push_call :: "Config \<Rightarrow> call" where
  "push_call cfg = git_call cfg [''push'']"

definition pull_call :: "Config \<Rightarrow> call" where
  "pull_call cfg = git_call cfg [''pull'', ''--rebase'']"

definition abort_call :: "Config \<Rightarrow> call" where
  "abort_call cfg = git_call cfg [''rebase'', ''--abort'']"

definition clone_call :: "Config \<Rightarrow> call" where
  "clone_call cfg =
     Cmd_Run ''/app'' (''GIT_SSH_COMMAND='' @ sshCommand cfg) ''git'' (cloneArgs cfg)"

inductive loop_shape :: "Config \<Rightarrow> nat \<Rightarrow> history \<Rightarrow> error option \<Rightarrow> bool" for cfg where
  exhausted: "loop_shape cfg 0 [] (Some ''git push failed after 3 attempts'')"
| pushed: "loop_shape cfg (Suc n) [(push_call cfg, Inr v)] None"
| rebase_failed:
    "loop_shape cfg (Suc n)
       [(push_call cfg, Inl e), (pull_call cfg, Inl pe), (abort_call cfg, a)]
       (Some (''git pull during push retry: '' @ pe))"
| retried:
    "loop_shape cfg n tr r \<Longrightarrow>
     loop_shape cfg (Suc n) ((push_call cfg, Inl e) # (pull_call cfg, Inr v) # tr) r"

text \<open>The call that scans the keys of a host.\<close>

definition scan_call :: "string \<Rightarrow> call" where
  "scan_call host = Cmd_Output ''ssh-keyscan'' [host]"

section \<open>The comment handler\<close>

text \<open>
  A request, as far as the handler reads it: the method, the headers (\<open>Header r k\<close> is
  \<open>r.Header.Get(k)\<close>, empty for a header that is absent), the result of \<open>r.ParseForm()\<close>
  and the values of the form. \<open>FormValue\<close> returns the first value of a field, or the
  empty string.
\<close>

record Request =
  Method :: string
  Header :: "string \<Rightarrow> string"
  ParseForm :: "error option"
  Form :: "string \<Rightarrow> string list"

definition FormValue :: "Request \<Rightarrow> string \<Rightarrow> string" where
  "FormValue r key = (case Form r key of [] \<Rightarrow> [] | v # vs \<Rightarrow> v)"

text \<open>
  A response is written by \<open>http.Error\<close> (a status and a plain-text body) or by
  \<open>http.Redirect\<close> (a status and a target).
\<close>

datatype Response = Http_Error string nat | Http_Redirect string nat

definition defaultMaxBodyLen :: nat where
  "defaultMaxBodyLen = 10000"

definition origin_allowed :: "Config \<Rightarrow> string \<Rightarrow> bool" where
  "origin_allowed cfg origin = list_ex (\<lambda>allowed. origin = allowed) (AllowedOrigins cfg)"

definition checkOrigin :: "stdlib \<Rightarrow> Config \<Rightarrow> Request \<Rightarrow> bool" where
  "checkOrigin lib cfg r =
     (let origin = Header r ''Origin''
      in if origin = [] then
           (let ref = Header r ''Referer''
            in if ref = [] then False
               else
                 (case url_Parse lib ref of
                    Inl err \<Rightarrow> False
                  | Inr u \<Rightarrow> origin_allowed cfg (Scheme u @ ''://'' @ Host u)))
         else origin_allowed cfg origin)"

definition errorRedirect :: "stdlib \<Rightarrow> string \<Rightarrow> string \<Rightarrow> Response" where
  "errorRedirect lib redirectURL msg =
     (if redirectURL \<noteq> [] then
        (case url_Parse lib redirectURL of
           Inr u \<Rightarrow>
             Http_Redirect
               (url_String lib (u\<lparr>RawQuery := url_SetQuery lib u ''comment_error'' msg\<rparr>)) 303
         | Inl err \<Rightarrow> Http_Error msg 400)
      else Http_Error msg 400)"

definition isAllowedRedirect :: "stdlib \<Rightarrow> Config \<Rightarrow> string \<Rightarrow> bool" where
  "isAllowedRedirect lib cfg rawURL =
     (case url_Parse lib rawURL of
        Inl err \<Rightarrow> False
      | Inr u \<Rightarrow> origin_allowed cfg (Scheme u @ ''://'' @ Host u))"

definition postExists :: "env \<Rightarrow> Config \<Rightarrow> string \<Rightarrow> world \<Rightarrow> bool \<times> world" where
  "postExists env cfg slug w =
     (let pattern = Join [FullPath (PostsPath cfg), slug @ ''.*''];
          (r, w1) = filepath_Glob env pattern w
      in (case r of Inl err \<Rightarrow> False | Inr ms \<Rightarrow> 0 < length ms, w1))"

definition randomHex :: "env \<Rightarrow> nat \<Rightarrow> world \<Rightarrow> (error + string) \<times> world" where
  "randomHex env n w =
     (let (r, w1) = rand_Read env n w
      in (case r of Inl err \<Rightarrow> Inl err | Inr b \<Rightarrow> Inr (hex b), w1))"

text \<open>
  \<open>Format\<close> of a time with the layouts \<open>20060102150405\<close> and \<open>time.RFC3339\<close> (in UTC):
  decimal fields, padded with zeros to four digits for the year and two for the others.
\<close>

definition pad :: "nat \<Rightarrow> nat \<Rightarrow> string" where
  "pad n k = replicate (n - length (itoa k)) CHR ''0'' @ itoa k"

definition format_stamp :: "Time \<Rightarrow> string" where
  "format_stamp t =
     pad 4 (Year t) @ pad 2 (Month t) @ pad 2 (Day t) @
     pad 2 (Hour t) @ pad 2 (Minute t) @ pad 2 (Second t)"

definition format_RFC3339 :: "Time \<Rightarrow> string" where
  "format_RFC3339 t =
     pad 4 (Year t) @ ''-'' @ pad 2 (Month t) @ ''-'' @ pad 2 (Day t) @ ''T'' @
     pad 2 (Hour t) @ '':'' @ pad 2 (Minute t) @ '':'' @ pad 2 (Second t) @ ''Z''"

definition writeComment ::
  "stdlib \<Rightarrow> env \<Rightarrow> Config \<Rightarrow> Comment \<Rightarrow> world \<Rightarrow> (error + string) \<times> world" where
  "writeComment lib env cfg c w =
     (let dir = Join [CommentsPath cfg, Slug c];
          fullDir = FullPath dir;
          (mk, w1) = os_MkdirAll env fullDir w
      in case mk of
           Some err \<Rightarrow> (Inl (''creating comment dir: '' @ err), w1)
         | None \<Rightarrow>
             (let ts = format_stamp (now_utc env (trace w1));
                  (rr, w2) = randomHex env 4 w1
              in case rr of
                   Inl err \<Rightarrow> (Inl (''generating random id: '' @ err), w2)
                 | Inr rnd \<Rightarrow>
                     (let filename = ts @ ''-'' @ rnd @ ''.yml'';
                          relPath = Join [dir, filename];
                          fullPath = FullPath relPath
                      in case yaml_Marshal lib c of
                           Inl err \<Rightarrow> (Inl (''marshaling comment: '' @ err), w2)
                         | Inr d \<Rightarrow>
                             (let (wr, w3) = os_WriteFile env fullPath d w2
                              in case wr of
                                   Some err \<Rightarrow>
                                     (Inl (''writing comment file: '' @ err), w3)
                                 | None \<Rightarrow> (Inr relPath, w3)))))"

text \<open>
  \<open>ServeHTTP\<close> in three parts, in the order of the source: \<open>ServeHTTP\<close> runs the checks
  up to the length of the body, \<open>ServeHTTP_slug\<close> continues with the slug, the reply
  target and the existence of the post, and \<open>ServeHTTP_publish\<close> builds the comment,
  writes it, commits it and redirects.
\<close>

definition ServeHTTP_publish ::
  "stdlib \<Rightarrow> env \<Rightarrow> Config \<Rightarrow> string \<Rightarrow> string \<Rightarrow> string \<Rightarrow> string \<Rightarrow> string \<Rightarrow> string \<Rightarrow>
   world \<Rightarrow> Response \<times> world" where
  "ServeHTTP_publish lib env cfg name email body slug replyTo redirectURL w =
     (let comment =
            \<lparr>Name = name, Email = email, Body = body,
             Date = format_RFC3339 (now_utc env (trace w)),
             Slug = slug, ReplyTo = replyTo\<rparr>;
          (wr, w1) = writeComment lib env cfg comment w
      in case wr of
           Inl err \<Rightarrow> (errorRedirect lib redirectURL ''Failed to save comment'', w1)
         | Inr relPath \<Rightarrow>
             (let (cp, w2) = CommitAndPush env cfg relPath slug w1
              in case cp of
                   Some err \<Rightarrow>
                     (errorRedirect lib redirectURL ''Failed to publish comment'', w2)
                 | None \<Rightarrow>
                     (case url_Parse lib redirectURL of
                        Inl err \<Rightarrow> (Http_Error ''Bad redirect URL'' 400, w2)
                      | Inr u \<Rightarrow>
                          (Http_Redirect
                             (url_String lib (u\<lparr>Fragment := ''comment-submitted''\<rparr>)) 303,
                           w2))))"

definition ServeHTTP_slug ::
  "stdlib \<Rightarrow> env \<Rightarrow> Config \<Rightarrow> string \<Rightarrow> string \<Rightarrow> string \<Rightarrow> string \<Rightarrow> string \<Rightarrow> string \<Rightarrow>
   world \<Rightarrow> Response \<times> world" where
  "ServeHTTP_slug lib env cfg name email body slug replyTo redirectURL w =
     (if \<not> isValidSlug slug then (errorRedirect lib redirectURL ''Invalid slug'', w)
      else if replyTo \<noteq> [] \<and> \<not> isValidSlug replyTo then
        (errorRedirect lib redirectURL ''Invalid reply_to'', w)
      else if PostsPath cfg \<noteq> [] then
        (let (ex, w1) = postExists env cfg slug w
         in if \<not> ex then (errorRedirect lib redirectURL ''Post not found'', w1)
            else ServeHTTP_publish lib env cfg name email body slug replyTo redirectURL w1)
      else ServeHTTP_publish lib env cfg name email body slug replyTo redirectURL w)"

definition ServeHTTP ::
  "stdlib \<Rightarrow> env \<Rightarrow> Config \<Rightarrow> Request \<Rightarrow> world \<Rightarrow> Response \<times> world" where
  "ServeHTTP lib env cfg r w =
     (if Method r \<noteq> ''POST'' then (Http_Error ''Method not allowed'' 405, w)
      else if \<not> checkOrigin lib cfg r then
        (Http_Error ''Forbidden: origin not allowed'' 403, w)
      else if ParseForm r \<noteq> None then (Http_Error ''Bad request'' 400, w)
      else
        let name = TrimSpace (FormValue r ''name'');
            email = TrimSpace (FormValue r ''email'');
            body = TrimSpace (FormValue r ''body'');
            slug = TrimSpace (FormValue r ''slug'');
            replyTo = TrimSpace (FormValue r ''reply_to'');
            redirectURL = TrimSpace (FormValue r ''url'')
        in if redirectURL \<noteq> [] \<and> \<not> isAllowedRedirect lib cfg redirectURL then
             (Http_Error ''Forbidden: redirect URL origin not allowed'' 403, w)
           else if name = [] \<or> body = [] \<or> slug = [] \<or> redirectURL = [] then
             (errorRedirect lib redirectURL
                ''Missing required fields (name, body, slug, url)'', w)
           else if defaultMaxBodyLen < length body then
             (errorRedirect lib redirectURL ''Comment body too long'', w)
           else ServeHTTP_slug lib env cfg name email body slug replyTo redirectURL w)"

text \<open>
  In the words of the specification: the origin of a request is its \<open>Origin\<close> header or,
  when that is absent, the scheme and host of its \<open>Referer\<close> header; the length of a
  body in characters is the number of runes its UTF-8 bytes encode, that is, of the
  bytes that do not continue a rune.
\<close>

definition request_origin :: "stdlib \<Rightarrow> Request \<Rightarrow> string option" where
  "request_origin lib r =
     (if Header r ''Origin'' \<noteq> [] then Some (Header r ''Origin'')
      else if Header r ''Referer'' = [] then None
      else (case url_Parse lib (Header r ''Referer'') of
              Inl err \<Rightarrow> None
            | Inr u \<Rightarrow> Some (Scheme u @ ''://'' @ Host u)))"


section \<open>The comments path of the configuration\<close>

text \<open>
  \<open>filepath.IsAbs\<close> on a system whose separator is \<open>/\<close>, and what \<open>LoadConfig\<close> does with
  the comments path it reads: it refuses an absolute path, cleans the path, and refuses
  a cleaned path that begins with \<open>..\<close>.
\<close>

definition IsAbs :: "string \<Rightarrow> bool" where
  "IsAbs path = HasPrefix path ''/''"

definition LoadConfig_CommentsPath :: "string \<Rightarrow> error + string" where
  "LoadConfig_CommentsPath p =
     (if IsAbs p then Inl ''STATICOMMENT_COMMENTS_PATH must be a relative path''
      else
        let q = Clean p
        in if HasPrefix q ''..'' then
             Inl ''STATICOMMENT_COMMENTS_PATH must not escape the repo directory''
           else Inr q)"

text \<open>
  In the words of the specification: a name is an element of a path that names an entry
  of a directory, and \<open>below root name\<close> is the path of the entry \<open>name\<close> of the
  directory \<open>root\<close>, where \<open>.\<close> is the directory a relative path starts from.
\<close>

definition plain_name :: "string \<Rightarrow> bool" where
  "plain_name s = (s \<noteq> [] \<and> s \<noteq> ''.'' \<and> s \<noteq> ''..'' \<and> CHR ''/'' \<notin> set s)"

definition below :: "string \<Rightarrow> string \<Rightarrow> string" where
  "below root name =
     (if root = ''.'' then name
      else if root = ''/'' then CHR ''/'' # name
      else root @ ''/'' @ name)"

section \<open>Spam checks\<close>

subsection \<open>The rate limiter\<close>

text \<open>
  A \<open>time.Time\<close> of the limiter is a point on a line of nanoseconds, an integer; a
  \<open>time.Duration\<close> is an \<open>int64\<close> of nanoseconds. The fields of \<open>RateLimiter\<close> carry the
  prefix \<open>rl_\<close>, since \<open>max\<close> is taken. A key that the Go map does not hold reads as the
  empty slice, which \<open>stamps\<close> does.
\<close>

record RateLimiter =
  rl_window :: int
  rl_max :: int
  rl_entries :: "string \<Rightarrow> int list option"

definition NewRateLimiter :: "int \<Rightarrow> int \<Rightarrow> RateLimiter" where
  "NewRateLimiter windowSeconds max_requests =
     \<lparr>rl_window = int64 (int64 windowSeconds * 1000000000),
      rl_max = max_requests,
      rl_entries = Map.empty\<rparr>"

definition stamps :: "RateLimiter \<Rightarrow> string \<Rightarrow> int list" where
  "stamps rl ip = (case rl_entries rl ip of None \<Rightarrow> [] | Some ts \<Rightarrow> ts)"

text \<open>
  The loop that keeps the timestamps after the cutoff. It writes into the slice it
  reads, behind the position it reads from, so the result is the kept elements in
  their order.
\<close>

fun keep_after :: "int \<Rightarrow> int list \<Rightarrow> int list" where
  "keep_after cutoff [] = []"
| "keep_after cutoff (t # ts) =
     (if cutoff < t then t # keep_after cutoff ts else keep_after cutoff ts)"

text \<open>\<open>Allow\<close>, with the reading of the clock \<open>now\<close> it takes.\<close>

definition Allow :: "RateLimiter \<Rightarrow> int \<Rightarrow> string \<Rightarrow> bool \<times> RateLimiter" where
  "Allow rl now ip =
     (if rl_max rl \<le> 0 then (True, rl)
      else
        let cutoff = now + int64 (- rl_window rl);
            timestamps = stamps rl ip;
            valid = keep_after cutoff timestamps
        in if rl_max rl \<le> int (length valid) then
             (False, rl\<lparr>rl_entries := (rl_entries rl)(ip \<mapsto> valid)\<rparr>)
           else (True, rl\<lparr>rl_entries := (rl_entries rl)(ip \<mapsto> valid @ [now])\<rparr>))"

text \<open>One round of the loop of \<open>cleanup\<close>, run under the lock at the time \<open>now\<close>.\<close>

definition cleanup_round :: "RateLimiter \<Rightarrow> int \<Rightarrow> RateLimiter" where
  "cleanup_round rl now =
     (let cutoff = now + int64 (- rl_window rl)
      in rl\<lparr>rl_entries :=
           (\<lambda>ip. case rl_entries rl ip of
                    None \<Rightarrow> None
                  | Some timestamps \<Rightarrow>
                      (let valid = keep_after cutoff timestamps
                       in if length valid = 0 then None else Some valid))\<rparr>)"

text \<open>
  What happens to a limiter over time: calls of \<open>Allow\<close> and rounds of \<open>cleanup\<close>, each
  under the lock, in any order and at any times.
\<close>

datatype limiter_event = Allow_call int string | Cleanup_round int

fun limiter_run :: "RateLimiter \<Rightarrow> limiter_event list \<Rightarrow> RateLimiter" where
  "limiter_run rl [] = rl"
| "limiter_run rl (Allow_call now ip # evs) = limiter_run (snd (Allow rl now ip)) evs"
| "limiter_run rl (Cleanup_round now # evs) = limiter_run (cleanup_round rl now) evs"

subsection \<open>Honeypot and timestamp\<close>

definition checkHoneypot :: "Request \<Rightarrow> string \<Rightarrow> bool" where
  "checkHoneypot r fieldName =
     (if fieldName = [] then False
      else TrimSpace (FormValue r fieldName) \<noteq> [])"

text \<open>
  \<open>checkTimestamp\<close>, with the value \<open>now\<close> of \<open>time.Now().Unix()\<close> it reads. The
  subtraction is one of \<open>int64\<close>.
\<close>

definition checkTimestamp :: "Request \<Rightarrow> int \<Rightarrow> int \<Rightarrow> bool" where
  "checkTimestamp r minSeconds now =
     (if minSeconds \<le> 0 then False
      else
        let tsStr = TrimSpace (FormValue r ''_timestamp'')
        in if tsStr = [] then False
           else
             (case ParseInt tsStr of
                None \<Rightarrow> True
              | Some ts \<Rightarrow>
                  (let elapsed = int64 (now - ts)
                   in elapsed < int64 minSeconds)))"

text \<open>The invariant of the ledger: no address holds more timestamps than the maximum.\<close>

definition within_limit :: "RateLimiter \<Rightarrow> bool" where
  "within_limit rl = (\<forall>ip. int (length (stamps rl ip)) \<le> rl_max rl)"


text \<open>
  In the words of the specification: the timestamps of an address that are newer than
  \<open>now - window\<close>.
\<close>

definition fresh :: "RateLimiter \<Rightarrow> int \<Rightarrow> string \<Rightarrow> int list" where
  "fresh rl now ip = filter (\<lambda>t. now - rl_window rl < t) (stamps rl ip)"

section \<open>Reading the trace of a clone\<close>

text \<open>
  The calls \<open>Clone\<close> and \<open>refreshHostKeys\<close> make, apart from the commands of \<open>git\<close> named
  above: the test for a working copy, the creation and the removal of the directory of
  the repository, the two commands that set the identity of the commits, and the
  creation of the directory of the trust store and the write to the store.
\<close>

definition stat_call :: call where
  "stat_call = Os_Stat ''/app/repo/.git''"

definition mkdir_call :: call where
  "mkdir_call = Os_MkdirAll ''/app/repo''"

definition remove_call :: call where
  "remove_call = Os_RemoveAll ''/app/repo''"

definition email_call :: "Config \<Rightarrow> call" where
  "email_call cfg = git_call cfg [''config'', ''user.email'', ''staticomment@quietlife.net'']"

definition name_call :: "Config \<Rightarrow> call" where
  "name_call cfg = git_call cfg [''config'', ''user.name'', ''staticomment'']"

definition keys_dir_call :: call where
  "keys_dir_call = Os_MkdirAll ''/app/.ssh''"

definition keys_write_call :: "string \<Rightarrow> call" where
  "keys_write_call out = Os_WriteFile ''/app/.ssh/known_hosts'' out"

text \<open>
  The shapes of what \<open>Clone\<close> adds to the trace, each with the result of \<open>Clone\<close>, in the
  words of the specification.

  Configuring the identity: the two commands, in this order; the first that fails ends
  the sequence with its error.
\<close>

inductive identity_shape :: "Config \<Rightarrow> history \<Rightarrow> error option \<Rightarrow> bool" for cfg where
  email_failed:
    "identity_shape cfg [(email_call cfg, Inl e)] (Some (''git config email: '' @ e))"
| name_failed:
    "identity_shape cfg [(email_call cfg, Inr v), (name_call cfg, Inl e)]
       (Some (''git config name: '' @ e))"
| configured:
    "identity_shape cfg [(email_call cfg, Inr v), (name_call cfg, Inr v')] None"

text \<open>
  Refreshing the keys of \<open>host\<close>: nothing when there is no host; otherwise the scan, the
  creation of the directory of the store and the write of what the scan printed to the
  store; the first that fails ends the sequence with its error.
\<close>

inductive refresh_shape :: "Config \<Rightarrow> string \<Rightarrow> history \<Rightarrow> error option \<Rightarrow> bool"
  for cfg host where
  no_host:
    "host = [] \<Longrightarrow>
     refresh_shape cfg host [] (Some (''could not extract host from repo URL: '' @ GitRepo cfg))"
| scan_failed:
    "host \<noteq> [] \<Longrightarrow>
     refresh_shape cfg host [(scan_call host, Inl e)]
       (Some (''ssh-keyscan '' @ host @ '': '' @ e))"
| keys_dir_failed:
    "host \<noteq> [] \<Longrightarrow>
     refresh_shape cfg host [(scan_call host, Inr v), (keys_dir_call, Inl e)]
       (Some (''creating .ssh dir: '' @ e))"
| keys_write_failed:
    "host \<noteq> [] \<Longrightarrow>
     refresh_shape cfg host
       [(scan_call host, Inr v), (keys_dir_call, Inr d), (keys_write_call (data_of v), Inl e)]
       (Some (''writing known_hosts: '' @ e))"
| refreshed:
    "host \<noteq> [] \<Longrightarrow>
     refresh_shape cfg host
       [(scan_call host, Inr v), (keys_dir_call, Inr d), (keys_write_call (data_of v), Inr x)]
       None"

text \<open>
  The retry, after the keys have been refreshed: the directory is removed and created
  again, and the clone is run once more; when it succeeds, the identity is configured.
\<close>

inductive retry_shape :: "Config \<Rightarrow> history \<Rightarrow> error option \<Rightarrow> bool" for cfg where
  remove_failed:
    "retry_shape cfg [(remove_call, Inl e)] (Some (''removing repo dir before retry: '' @ e))"
| create_failed:
    "retry_shape cfg [(remove_call, Inr v), (mkdir_call, Inl e)]
       (Some (''creating repo dir before retry: '' @ e))"
| retry_failed:
    "retry_shape cfg [(remove_call, Inr v), (mkdir_call, Inr d), (clone_call cfg, Inl e)]
       (Some (''git clone: '' @ e))"
| retry_cloned:
    "identity_shape cfg tr r \<Longrightarrow>
     retry_shape cfg
       ((remove_call, Inr v) # (mkdir_call, Inr d) # (clone_call cfg, Inr c) # tr) r"

text \<open>
  \<open>Clone\<close>, from the test for a working copy on: a working copy that exists is pulled;
  otherwise the directory is created and the clone is run. A clone that succeeds is
  followed by the configuration of the identity. A clone that fails is the end when
  the host keys are not checked; when they are checked, the keys are refreshed, and a
  refresh that fails is the end, with the error of the clone, while a refresh that
  succeeds is followed by the retry.
\<close>

inductive Clone_shape :: "Config \<Rightarrow> string \<Rightarrow> history \<Rightarrow> error option \<Rightarrow> bool"
  for cfg host where
  pulled:
    "Clone_shape cfg host [(stat_call, Inr v), (pull_call cfg, p)] (err_of p)"
| no_directory:
    "Clone_shape cfg host [(stat_call, Inl s), (mkdir_call, Inl e)]
       (Some (''creating repo dir: '' @ e))"
| cloned:
    "identity_shape cfg tr r \<Longrightarrow>
     Clone_shape cfg host
       ((stat_call, Inl s) # (mkdir_call, Inr d) # (clone_call cfg, Inr c) # tr) r"
| clone_failed:
    "SSHInsecure cfg \<Longrightarrow>
     Clone_shape cfg host [(stat_call, Inl s), (mkdir_call, Inr d), (clone_call cfg, Inl e)]
       (Some (''git clone: '' @ e))"
| refresh_failed:
    "\<not> SSHInsecure cfg \<Longrightarrow> refresh_shape cfg host kt (Some ke) \<Longrightarrow>
     Clone_shape cfg host
       ((stat_call, Inl s) # (mkdir_call, Inr d) # (clone_call cfg, Inl e) # kt)
       (Some (''git clone: '' @ e))"
| retried:
    "\<not> SSHInsecure cfg \<Longrightarrow> refresh_shape cfg host kt None \<Longrightarrow> retry_shape cfg tr r \<Longrightarrow>
     Clone_shape cfg host
       ((stat_call, Inl s) # (mkdir_call, Inr d) # (clone_call cfg, Inl e) # kt @ tr) r"

section \<open>Example inputs\<close>

text \<open>Concrete requests and limiters on which the properties below are run.\<close>

definition form_request :: "(string \<times> string) list \<Rightarrow> Request" where
  "form_request kvs =
     \<lparr>Method = ''POST'',
      Header = (\<lambda>k. if k = ''Origin'' then ''https://example.com'' else []),
      ParseForm = None,
      Form = (\<lambda>k. map snd (filter (\<lambda>kv. fst kv = k) kvs))\<rparr>"

definition busy_limiter :: RateLimiter where
  "busy_limiter =
     \<lparr>rl_window = 60000000000, rl_max = 2,
      rl_entries = [''10.0.0.1'' \<mapsto> [5000000000, 70000000000, 80000000000]]\<rparr>"

definition example_cfg :: Config where
  "example_cfg =
     \<lparr>GitRepo = ''git@github.com:you/your-site.git'', Branch = ''main'',
      CommentsPath = ''_data/comments'', PostsPath = [], Port = ''8080'',
      AllowedOrigins = [''https://example.com''],
      SSHKeyPath = ''/app/.ssh/id_ed25519'', SSHInsecure = False\<rparr>"

definition example_time :: Time where
  "example_time = \<lparr>Year = 2024, Month = 3, Day = 9, Hour = 7, Minute = 5, Second = 2\<rparr>"

definition empty_world :: world where
  "empty_world = \<lparr>files = Map.empty, trace = []\<rparr>"

text \<open>
  An environment in which every push is rejected until six calls have been made, so
  that the third push of \<open>CommitAndPush\<close> is the first to succeed, and one in which
  every push is rejected.
\<close>

definition flaky_push_env :: env where
  "flaky_push_env =
     \<lparr>sys = (\<lambda>h c. if c = push_call example_cfg \<and> length h < 6 then Inl ''rejected''
                     else Inr Done),
      now_utc = (\<lambda>h. example_time)\<rparr>"

definition no_push_env :: env where
  "no_push_env =
     \<lparr>sys = (\<lambda>h c. if c = push_call example_cfg then Inl ''rejected'' else Inr Done),
      now_utc = (\<lambda>h. example_time)\<rparr>"

text \<open>An environment in which every push and every pull but the first are refused.\<close>

definition rebase_fail_env :: env where
  "rebase_fail_env =
     \<lparr>sys = (\<lambda>h c. if c = push_call example_cfg then Inl ''rejected''
                     else if c = pull_call example_cfg \<and> h \<noteq> [] then Inl ''conflict''
                     else Inr Done),
      now_utc = (\<lambda>h. example_time)\<rparr>"

text \<open>
  A small stand-in for \<open>net/url\<close> and the YAML encoder, to run the model on examples.
  It reads a URL of the form \<open>scheme://host/path?query#fragment\<close>, or a path without
  scheme and host, and refuses control characters, as \<open>url.Parse\<close> does; \<open>Hostname\<close>
  drops a port; the query it sets replaces an empty one and is escaped as
  \<open>url.QueryEscape\<close> escapes. No property depends on it: they are proved for every
  library.
\<close>

fun cut :: "string \<Rightarrow> string \<Rightarrow> (string \<times> string) option" where
  "cut [] sep = (if sep = [] then Some ([], []) else None)"
| "cut (c # cs) sep =
     (if HasPrefix (c # cs) sep then Some ([], drop (length sep) (c # cs))
      else (case cut cs sep of None \<Rightarrow> None | Some (a, b) \<Rightarrow> Some (c # a, b)))"

definition simple_Parse :: "string \<Rightarrow> error + URL" where
  "simple_Parse s =
     (if list_ex (\<lambda>c. rune c < 32 \<or> rune c = 127) s then
        Inl ''net/url: invalid control character in URL''
      else
        let (s1, frag) = (case cut s ''#'' of None \<Rightarrow> (s, []) | Some ab \<Rightarrow> ab);
            (s2, query) = (case cut s1 ''?'' of None \<Rightarrow> (s1, []) | Some ab \<Rightarrow> ab)
        in case cut s2 ''://'' of
             None \<Rightarrow>
               Inr \<lparr>Scheme = [], Host = [], Path = s2, RawQuery = query, Fragment = frag\<rparr>
           | Some (scheme, rest) \<Rightarrow>
               Inr \<lparr>Scheme = scheme, Host = takeWhile (\<lambda>c. c \<noteq> CHR ''/'') rest,
                    Path = dropWhile (\<lambda>c. c \<noteq> CHR ''/'') rest,
                    RawQuery = query, Fragment = frag\<rparr>)"

definition simple_String :: "URL \<Rightarrow> string" where
  "simple_String u =
     (if Scheme u = [] then [] else Scheme u @ ''://'') @ Host u @ Path u @
     (if RawQuery u = [] then [] else ''?'' @ RawQuery u) @
     (if Fragment u = [] then [] else ''#'' @ Fragment u)"

definition upper_hex_digit :: "nat \<Rightarrow> char" where
  "upper_hex_digit n = ''0123456789ABCDEF'' ! n"

definition query_escape :: "string \<Rightarrow> string" where
  "query_escape s =
     concat (map (\<lambda>c. if c \<in> slug_alphabet \<or> c = CHR ''.'' \<or> c = CHR ''~'' then [c]
                         else if c = CHR '' '' then ''+''
                         else [CHR ''%'', upper_hex_digit (rune c div 16),
                               upper_hex_digit (rune c mod 16)]) s)"

definition simple_SetQuery :: "URL \<Rightarrow> string \<Rightarrow> string \<Rightarrow> string" where
  "simple_SetQuery u k v =
     (if RawQuery u = [] then [] else RawQuery u @ ''&'') @
     query_escape k @ ''='' @ query_escape v"

definition simple_yaml :: "Comment \<Rightarrow> error + string" where
  "simple_yaml c =
     Inr (''name: '' @ Name c @ [CHR 0x0A] @ ''body: '' @ Body c @ [CHR 0x0A] @
          ''date: '' @ Date c @ [CHR 0x0A] @ ''slug: '' @ Slug c @ [CHR 0x0A])"

definition simple_lib :: stdlib where
  "simple_lib =
     \<lparr>url_Parse = simple_Parse,
      url_Hostname = (\<lambda>u. takeWhile (\<lambda>c. c \<noteq> CHR '':'') (Host u)),
      url_String = simple_String,
      url_SetQuery = simple_SetQuery,
      yaml_Marshal = simple_yaml\<rparr>"

text \<open>
  An environment in which every call succeeds; \<open>ssh-keyscan\<close> prints one key and the
  random source gives four fixed bytes.
\<close>

definition calm_env :: env where
  "calm_env =
     \<lparr>sys = (\<lambda>h c. case c of
                     Cmd_Output name args \<Rightarrow>
                       Inr (Data (''git.example.org ssh-ed25519 AAAAC3Nz'' @ [CHR 0x0A]))
                   | Rand_Read n \<Rightarrow> Inr (Data [CHR 0xDE, CHR 0xAD, CHR 0xBE, CHR 0xEF])
                   | Filepath_Glob pattern \<Rightarrow> Inr (Matches [''/app/repo/_posts/my-post.md''])
                   | _ \<Rightarrow> Inr Done),
      now_utc = (\<lambda>h. example_time)\<rparr>"

text \<open>A configuration for a self-hosted remote, and a store that knows another host.\<close>

definition selfhosted_cfg :: Config where
  "selfhosted_cfg = example_cfg\<lparr>GitRepo := ''git@git.example.org:you/site.git''\<rparr>"

definition github_world :: world where
  "github_world =
     \<lparr>files = [knownHostsPath \<mapsto> ''github.com ssh-ed25519 AAAAC3Nz'' @ [CHR 0x0A]],
      trace = []\<rparr>"

text \<open>A comment, and a world in which the file it will be written to exists already.\<close>

definition example_comment :: Comment where
  "example_comment =
     \<lparr>Name = ''Ada'', Email = [], Body = ''Nice post'', Date = ''2024-03-09T07:05:02Z'',
      Slug = ''my-post'', ReplyTo = []\<rparr>"

definition occupied_world :: world where
  "occupied_world =
     \<lparr>files = [''/app/repo/_data/comments/my-post/20240309070502-deadbeef.yml'' \<mapsto>
                 ''name: Grace''],
      trace = []\<rparr>"

text \<open>
  A request with a redirect target on a foreign site whose form could not be parsed,
  and a body of 5002 characters in 10002 bytes: an \<open>a\<close>, 5000 times the two bytes of
  U+00E9, and a \<open>b\<close>.
\<close>

definition unparsed_request :: Request where
  "unparsed_request =
     (form_request [(''name'', ''Ada''), (''body'', ''Nice post''), (''slug'', ''my-post''),
                    (''url'', ''http://evil.example/page'')])
       \<lparr>ParseForm := Some ''http: request body too large''\<rparr>"




text \<open>
  An environment without a working copy, in which the first clone fails and every
  other call succeeds.
\<close>

definition stale_key_env :: env where
  "stale_key_env =
     \<lparr>sys = (\<lambda>h c. if c = stat_call then Inl ''stat /app/repo/.git: no such file or directory''
                     else if c = clone_call example_cfg \<and> length h < 3 then
                       Inl ''exit status 128''
                     else sys calm_env h c),
      now_utc = now_utc calm_env\<rparr>"

section \<open>Properties of the string functions\<close>

lemma HasPrefix_iff: "HasPrefix s p \<longleftrightarrow> (\<exists>b. s = p @ b)"
proof
  assume "HasPrefix s p"
  then have "s = p @ drop (length p) s"
    unfolding HasPrefix_def by (metis append_take_drop_id)
  then show "\<exists>b. s = p @ b" ..
next
  assume "\<exists>b. s = p @ b"
  then show "HasPrefix s p" unfolding HasPrefix_def by auto
qed

lemma HasSuffix_iff: "HasSuffix s p \<longleftrightarrow> (\<exists>a. s = a @ p)"
proof
  assume h: "HasSuffix s p"
  then have "s = take (length s - length p) s @ p"
    unfolding HasSuffix_def by (metis append_take_drop_id)
  then show "\<exists>a. s = a @ p" ..
next
  assume "\<exists>a. s = a @ p"
  then show "HasSuffix s p" unfolding HasSuffix_def by auto
qed

lemma space_runes_nonempty: "e \<in> set space_runes \<Longrightarrow> e \<noteq> []"
  by (auto simp: space_runes_def)

text \<open>No white-space rune is the beginning or the end of another one.\<close>

lemma HasPrefix_Nil: "HasPrefix s [] = True"
  by (simp add: HasPrefix_def)

lemma HasPrefix_Nil_Cons: "HasPrefix [] (p # ps) = False"
  by (simp add: HasPrefix_def)

lemma HasPrefix_Cons: "HasPrefix (c # cs) (p # ps) = (c = p \<and> HasPrefix cs ps)"
  by (auto simp: HasPrefix_def)

lemmas HasPrefix_simps = HasPrefix_Nil HasPrefix_Nil_Cons HasPrefix_Cons

lemma HasSuffix_rev: "HasSuffix s p = HasPrefix (rev s) (rev p)"
proof -
  have "(\<exists>a. s = a @ p) \<longleftrightarrow> (\<exists>b. rev s = rev p @ b)"
    by (metis rev_append rev_rev_ident)
  then show ?thesis by (simp add: HasSuffix_iff HasPrefix_iff)
qed

lemma leading_space_rune:
  assumes "e \<in> set space_runes"
  shows "leading_space (e @ s) = length e"
proof -
  have "\<forall>e \<in> set space_runes. leading_space (e @ s) = length e"
    unfolding space_runes_def leading_space_def
    by (simp add: HasPrefix_simps)
  with assms show ?thesis by blast
qed

lemma trailing_space_rune:
  assumes "e \<in> set space_runes"
  shows "trailing_space (s @ e) = length e"
proof -
  have "\<forall>e \<in> set space_runes. trailing_space (s @ e) = length e"
    unfolding space_runes_def trailing_space_def
    by (simp add: HasSuffix_rev HasPrefix_simps)
  with assms show ?thesis by blast
qed

lemma leading_space_split:
  assumes "leading_space s \<noteq> 0"
  shows "\<exists>e \<in> set space_runes. s = e @ drop (leading_space s) s"
proof -
  from assms obtain e where f: "find (HasPrefix s) space_runes = Some e"
    unfolding leading_space_def by (auto split: option.splits)
  then have e: "e \<in> set space_runes" and p: "HasPrefix s e"
    by (auto simp: find_Some_iff)
  from f have n: "leading_space s = length e" by (simp add: leading_space_def)
  from p obtain b where "s = e @ b" using HasPrefix_iff by blast
  with n e show ?thesis by auto
qed

lemma trailing_space_split:
  assumes "trailing_space s \<noteq> 0"
  shows "\<exists>e \<in> set space_runes. s = take (length s - trailing_space s) s @ e"
proof -
  from assms obtain e where f: "find (HasSuffix s) space_runes = Some e"
    unfolding trailing_space_def by (auto split: option.splits)
  then have e: "e \<in> set space_runes" and p: "HasSuffix s e"
    by (auto simp: find_Some_iff)
  from f have n: "trailing_space s = length e" by (simp add: trailing_space_def)
  from p obtain a where "s = a @ e" using HasSuffix_iff by blast
  with n e show ?thesis by auto
qed

lemma TrimLeft_rune: "e \<in> set space_runes \<Longrightarrow> TrimLeft (e @ s) = TrimLeft s"
  using leading_space_rune [of e s] space_runes_nonempty [of e]
  by (subst TrimLeft.simps) simp

lemma TrimRight_rune: "e \<in> set space_runes \<Longrightarrow> TrimRight (s @ e) = TrimRight s"
  using trailing_space_rune [of e s] space_runes_nonempty [of e]
  by (subst TrimRight.simps) simp

lemma TrimLeft_Nil: "TrimLeft [] = []"
  by (subst TrimLeft.simps) (simp add: leading_space_Nil)

lemma TrimRight_Nil: "TrimRight [] = []"
  by (subst TrimRight.simps) (simp add: trailing_space_Nil)

lemma leading_space_TrimLeft: "leading_space (TrimLeft s) = 0"
proof (induction s rule: TrimLeft.induct)
  case (1 s)
  show ?case
  proof (cases "leading_space s = 0")
    case True
    then show ?thesis by (subst TrimLeft.simps) simp
  next
    case False
    with 1 show ?thesis by (subst TrimLeft.simps) simp
  qed
qed

lemma blank_append:
  assumes "blank a" and "blank b"
  shows "blank (a @ b)"
  using assms(1)
proof (induction rule: blank.induct)
  case blank_Nil
  show ?case using assms(2) by simp
next
  case (blank_Cons e s)
  from blank_Cons.hyps(1) blank_Cons.IH have "blank (e @ (s @ b))"
    by (rule blank.blank_Cons)
  then show ?case by simp
qed

lemma blank_rune: "e \<in> set space_runes \<Longrightarrow> blank e"
  using blank_Cons [of e "[]"] blank_Nil by simp

lemma blank_leading: "blank s \<Longrightarrow> s \<noteq> [] \<Longrightarrow> leading_space s \<noteq> 0"
proof (induction rule: blank.induct)
  case blank_Nil
  then show ?case by simp
next
  case (blank_Cons e s)
  then show ?case using leading_space_rune space_runes_nonempty by auto
qed

lemma TrimLeft_blank: "blank s \<Longrightarrow> TrimLeft s = []"
  by (induction rule: blank.induct) (simp_all add: TrimLeft_Nil TrimLeft_rune)

lemma TrimLeft_empty_blank: "TrimLeft s = [] \<Longrightarrow> blank s"
proof (induction s rule: TrimLeft.induct)
  case (1 s)
  show ?case
  proof (cases "leading_space s = 0")
    case True
    with 1(2) have "s = []" by (subst (asm) TrimLeft.simps) simp
    then show ?thesis by (simp add: blank_Nil)
  next
    case False
    with 1(2) have "TrimLeft (drop (leading_space s) s) = []"
      by (subst (asm) TrimLeft.simps) simp
    with 1(1) False have b: "blank (drop (leading_space s) s)" by simp
    from False obtain e where "e \<in> set space_runes" "s = e @ drop (leading_space s) s"
      using leading_space_split by blast
    with b show ?thesis using blank_Cons by metis
  qed
qed

lemma TrimRight_empty_blank: "TrimRight s = [] \<Longrightarrow> blank s"
proof (induction s rule: TrimRight.induct)
  case (1 s)
  show ?case
  proof (cases "trailing_space s = 0")
    case True
    with 1(2) have "s = []" by (subst (asm) TrimRight.simps) simp
    then show ?thesis by (simp add: blank_Nil)
  next
    case False
    with 1(2) have "TrimRight (take (length s - trailing_space s) s) = []"
      by (subst (asm) TrimRight.simps) simp
    with 1(1) False have b: "blank (take (length s - trailing_space s) s)" by simp
    from False obtain e where
      "e \<in> set space_runes" "s = take (length s - trailing_space s) s @ e"
      using trailing_space_split by blast
    with b show ?thesis using blank_append blank_rune by metis
  qed
qed

text \<open>Trimming leaves nothing exactly when the string is blank.\<close>

lemma TrimSpace_empty_iff: "TrimSpace s = [] \<longleftrightarrow> blank s"
proof
  assume "TrimSpace s = []"
  then have "blank (TrimLeft s)" by (simp add: TrimSpace_def TrimRight_empty_blank)
  then have "TrimLeft s = []"
    using blank_leading leading_space_TrimLeft by blast
  then show "blank s" by (rule TrimLeft_empty_blank)
next
  assume "blank s"
  then show "TrimSpace s = []" by (simp add: TrimSpace_def TrimLeft_blank TrimRight_Nil)
qed


section \<open>Properties of slug validation\<close>

lemma Contains_iff: "Contains s sub \<longleftrightarrow> (\<exists>a b. s = a @ sub @ b)"
proof (induction s)
  case Nil
  show ?case by auto
next
  case (Cons c cs)
  show ?case
  proof
    assume "Contains (c # cs) sub"
    then consider "HasPrefix (c # cs) sub" | "Contains cs sub" by auto
    then show "\<exists>a b. c # cs = a @ sub @ b"
    proof cases
      case 1
      then obtain b where "c # cs = sub @ b" using HasPrefix_iff by blast
      then have "c # cs = [] @ sub @ b" by simp
      then show ?thesis by blast
    next
      case 2
      then obtain a b where "cs = a @ sub @ b" using Cons.IH by blast
      then have "c # cs = (c # a) @ sub @ b" by simp
      then show ?thesis by blast
    qed
  next
    assume "\<exists>a b. c # cs = a @ sub @ b"
    then obtain a b where ab: "c # cs = a @ sub @ b" by blast
    show "Contains (c # cs) sub"
    proof (cases a)
      case Nil
      with ab have "HasPrefix (c # cs) sub" using HasPrefix_iff by auto
      then show ?thesis by simp
    next
      case (Cons x a')
      with ab have "cs = a' @ sub @ b" by simp
      then have "Contains cs sub" using Cons.IH by blast
      then show ?thesis by simp
    qed
  qed
qed

lemma slug_rune_ok_alphabet: "slug_rune_ok c \<longleftrightarrow> c \<in> slug_alphabet"
  unfolding slug_rune_ok_def slug_alphabet_def rune_def
  by (cases c) simp

lemma slug_loop_iff: "slug_loop s \<longleftrightarrow> set s \<subseteq> slug_alphabet"
  by (induction s) (simp_all add: slug_rune_ok_alphabet)

lemma dots_not_in_alphabet:
  assumes "set s \<subseteq> slug_alphabet"
  shows "\<not> Contains s ''..''"
proof
  assume "Contains s ''..''"
  then obtain a b where "s = a @ ''..'' @ b" using Contains_iff by blast
  then have "CHR ''.'' \<in> set s" by simp
  with assms have "CHR ''.'' \<in> slug_alphabet" by blast
  then show False by (simp add: slug_alphabet_def)
qed

lemma separators_not_in_alphabet:
  assumes "set s \<subseteq> slug_alphabet"
  shows "\<not> ContainsAny s [CHR ''/'', CHR 0x5C]"
proof
  assume "ContainsAny s [CHR ''/'', CHR 0x5C]"
  then have "CHR ''/'' \<in> set s \<or> CHR 0x5C \<in> set s"
    by (auto simp: ContainsAny_def)
  with assms have "CHR ''/'' \<in> slug_alphabet \<or> CHR 0x5C \<in> slug_alphabet" by blast
  then show False by (simp add: slug_alphabet_def)
qed

lemma isValidSlug_iff: "isValidSlug s \<longleftrightarrow> s \<noteq> [] \<and> set s \<subseteq> slug_alphabet"
proof (cases "set s \<subseteq> slug_alphabet")
  case True
  then show ?thesis
    by (simp add: isValidSlug_def dots_not_in_alphabet separators_not_in_alphabet
        slug_loop_iff)
next
  case False
  then have "\<not> slug_loop s" by (simp add: slug_loop_iff)
  with False show ?thesis by (simp add: isValidSlug_def)
qed

text \<open>
  Claim C3. \<open>isValidSlug\<close> rejects the empty string, every string that contains the
  substring \<open>..\<close>, every string that contains \<open>/\<close> or a backslash, and every string with
  a character that is not an ASCII letter, a digit, a hyphen or an underscore; it
  accepts every non-empty string made of such characters only.
\<close>

theorem isValidSlug_spec:
  "(slug = [] \<longrightarrow> \<not> isValidSlug slug) \<and>
   ((\<exists>a b. slug = a @ ''..'' @ b) \<longrightarrow> \<not> isValidSlug slug) \<and>
   (CHR ''/'' \<in> set slug \<or> CHR 0x5C \<in> set slug \<longrightarrow> \<not> isValidSlug slug) \<and>
   ((\<exists>c \<in> set slug. c \<notin> slug_alphabet) \<longrightarrow> \<not> isValidSlug slug) \<and>
   (slug \<noteq> [] \<and> (\<forall>c \<in> set slug. c \<in> slug_alphabet) \<longrightarrow> isValidSlug slug)"
proof -
  have dots: "\<not> isValidSlug slug" if "\<exists>a b. slug = a @ ''..'' @ b"
  proof -
    from that have "Contains slug ''..''" using Contains_iff by blast
    then show ?thesis by (simp add: isValidSlug_def)
  qed
  have seps: "\<not> isValidSlug slug" if "CHR ''/'' \<in> set slug \<or> CHR 0x5C \<in> set slug"
  proof -
    from that have "ContainsAny slug [CHR ''/'', CHR 0x5C]"
      by (auto simp: ContainsAny_def)
    then show ?thesis by (simp add: isValidSlug_def)
  qed
  have other: "\<not> isValidSlug slug" if "\<exists>c \<in> set slug. c \<notin> slug_alphabet"
    using that isValidSlug_iff by blast
  have good: "isValidSlug slug" if "slug \<noteq> [] \<and> (\<forall>c \<in> set slug. c \<in> slug_alphabet)"
    using that isValidSlug_iff by blast
  have empty: "\<not> isValidSlug slug" if "slug = []"
    using that by (simp add: isValidSlug_def)
  show ?thesis
    using empty dots seps other good by blast
qed

theorem isValidSlug_spec_witness:
  "\<not> isValidSlug [] \<and> \<not> isValidSlug ''..sneaky'' \<and> \<not> isValidSlug ''a/b'' \<and>
   \<not> isValidSlug ''my post'' \<and> isValidSlug ''my-post_1''"
proof -
  have 1: "\<exists>a b. ''..sneaky'' = a @ ''..'' @ b"
  proof -
    have "''..sneaky'' = [] @ ''..'' @ ''sneaky''" by simp
    then show ?thesis by (intro exI)
  qed
  have 2: "CHR ''/'' \<in> set ''a/b'' \<or> CHR 0x5C \<in> set ''a/b''" by simp
  have 3: "\<exists>c \<in> set ''my post''. c \<notin> slug_alphabet"
    by (simp add: slug_alphabet_def)
  have 4: "''my-post_1'' \<noteq> [] \<and> (\<forall>c \<in> set ''my-post_1''. c \<in> slug_alphabet)"
    by (simp add: slug_alphabet_def)
  have a: "\<not> isValidSlug []"
    by (rule isValidSlug_spec [THEN conjunct1, THEN mp]) simp
  have b: "\<not> isValidSlug ''..sneaky''"
    by (rule isValidSlug_spec [THEN conjunct2, THEN conjunct1, THEN mp, OF 1])
  have c: "\<not> isValidSlug ''a/b''"
    by (rule isValidSlug_spec [THEN conjunct2, THEN conjunct2, THEN conjunct1, THEN mp, OF 2])
  have d: "\<not> isValidSlug ''my post''"
    by (rule isValidSlug_spec [THEN conjunct2, THEN conjunct2, THEN conjunct2, THEN conjunct1, THEN mp, OF 3])
  have e: "isValidSlug ''my-post_1''"
    by (rule isValidSlug_spec [THEN conjunct2, THEN conjunct2, THEN conjunct2, THEN conjunct2, THEN mp, OF 4])
  show ?thesis using a b c d e by (intro conjI)
qed
section \<open>The honeypot check\<close>

text \<open>
  Claim C10. \<open>checkHoneypot\<close> returns false when the configured field name is empty,
  whatever the request holds; otherwise it returns true exactly when the value of the
  named field is not empty after trimming, that is, when the value is not blank.
\<close>

theorem checkHoneypot_spec:
  "(fieldName = [] \<longrightarrow> \<not> checkHoneypot r fieldName) \<and>
   (fieldName \<noteq> [] \<longrightarrow>
      (checkHoneypot r fieldName \<longleftrightarrow> TrimSpace (FormValue r fieldName) \<noteq> [])) \<and>
   (fieldName \<noteq> [] \<longrightarrow>
      (checkHoneypot r fieldName \<longleftrightarrow> \<not> blank (FormValue r fieldName)))"
  by (simp add: checkHoneypot_def TrimSpace_empty_iff)

theorem checkHoneypot_spec_witness:
  "\<not> checkHoneypot (form_request [(''website'', ''http://spam.example'')]) [] \<and>
   checkHoneypot (form_request [(''website'', ''http://spam.example'')]) ''website'' \<and>
   \<not> checkHoneypot (form_request [(''website'', [CHR 0x20, CHR 0x09])]) ''website''"
proof -
  let ?bot = "form_request [(''website'', ''http://spam.example'')]"
  let ?human = "form_request [(''website'', [CHR 0x20, CHR 0x09])]"
  have name: "''website'' \<noteq> []" by simp
  have filled: "TrimSpace (FormValue ?bot ''website'') \<noteq> []" by code_simp
  have spaces: "blank (FormValue ?human ''website'')"
  proof -
    have "FormValue ?human ''website'' = [CHR 0x20] @ [CHR 0x09] @ []"
      by (simp add: FormValue_def form_request_def)
    moreover have "blank ([CHR 0x20] @ [CHR 0x09] @ [])"
      by (intro blank.intros) (simp_all add: space_runes_def)
    ultimately show ?thesis by simp
  qed
  have a: "\<not> checkHoneypot ?bot []"
    by (rule checkHoneypot_spec [THEN conjunct1, THEN mp]) simp
  have b: "checkHoneypot ?bot ''website''"
    using checkHoneypot_spec [of "''website''" ?bot, THEN conjunct2, THEN conjunct1, THEN mp,
        OF name] filled by (rule iffD2)
  have c: "\<not> checkHoneypot ?human ''website''"
    using checkHoneypot_spec [of "''website''" ?human, THEN conjunct2, THEN conjunct2, THEN mp,
        OF name] spaces by simp
  show ?thesis using a b c by (intro conjI)
qed

section \<open>The timestamp check\<close>

lemma int64_id: "- (2 ^ 63) \<le> x \<Longrightarrow> x < 2 ^ 63 \<Longrightarrow> int64 x = x"
  unfolding int64_def by (simp add: mod_pos_pos_trivial)

text \<open>
  What \<open>checkTimestamp\<close> does where the subtraction stays in the range of \<open>int64\<close>: no
  check without a positive minimum, none for a blank field, a malformed field is
  refused, and a parsed timestamp is refused exactly when less than the minimum has
  elapsed since it.
\<close>

lemma checkTimestamp_in_range:
  "(minSeconds \<le> 0 \<longrightarrow> \<not> checkTimestamp r minSeconds now) \<and>
   (blank (FormValue r ''_timestamp'') \<longrightarrow> \<not> checkTimestamp r minSeconds now) \<and>
   (0 < minSeconds \<and> \<not> blank (FormValue r ''_timestamp'') \<and>
    ParseInt (TrimSpace (FormValue r ''_timestamp'')) = None \<longrightarrow>
      checkTimestamp r minSeconds now) \<and>
   (0 < minSeconds \<and> minSeconds < 2 ^ 63 \<and> \<not> blank (FormValue r ''_timestamp'') \<and>
    ParseInt (TrimSpace (FormValue r ''_timestamp'')) = Some ts \<and>
    - (2 ^ 63) \<le> now - ts \<and> now - ts < 2 ^ 63 \<longrightarrow>
      (checkTimestamp r minSeconds now \<longleftrightarrow> now - ts < minSeconds))"
  by (auto simp: checkTimestamp_def TrimSpace_empty_iff Let_def int64_id)

text \<open>
  Claim C9. For a well-formed timestamp the function should return true exactly when
  the time elapsed since it is less than the minimum. The subtraction
  \<open>time.Now().Unix() - ts\<close> wraps around: for the timestamp \<open>-9223372036854775808\<close>,
  a minimum of 5 seconds and the clock at 1700000000, far more than 5 seconds have
  elapsed, and the function returns true all the same.
\<close>

theorem checkTimestamp_wraps:
  "ParseInt ''-9223372036854775808'' = Some (- 9223372036854775808) \<and>
   (5 :: int) \<le> 1700000000 - (- 9223372036854775808) \<and>
   checkTimestamp (form_request [(''_timestamp'', ''-9223372036854775808'')]) 5 1700000000"
proof -
  have p: "ParseInt ''-9223372036854775808'' = Some (- 9223372036854775808)"
    by code_simp
  have t: "TrimSpace (FormValue (form_request [(''_timestamp'', ''-9223372036854775808'')])
             ''_timestamp'') = ''-9223372036854775808''"
    by code_simp
  have c: "checkTimestamp (form_request [(''_timestamp'', ''-9223372036854775808'')]) 5
             1700000000"
    by (simp add: checkTimestamp_def t p int64_def)
  show ?thesis using p c by simp
qed

section \<open>The rate limiter\<close>

lemma keep_after_filter: "keep_after cutoff ts = filter (\<lambda>t. cutoff < t) ts"
  by (induction ts) simp_all

lemma keep_after_length: "length (keep_after cutoff ts) \<le> length ts"
  by (simp add: keep_after_filter)

lemma stamps_update:
  "stamps (rl\<lparr>rl_entries := (rl_entries rl)(ip \<mapsto> ts)\<rparr>) ip = ts"
  by (simp add: stamps_def)

lemma within_limit_New: "0 \<le> m \<Longrightarrow> within_limit (NewRateLimiter ws m)"
  by (simp add: within_limit_def NewRateLimiter_def stamps_def)

lemma rl_max_Allow: "rl_max (snd (Allow rl now ip)) = rl_max rl"
  by (simp add: Allow_def Let_def)

lemma rl_max_cleanup_round: "rl_max (cleanup_round rl now) = rl_max rl"
  by (simp add: cleanup_round_def Let_def)

lemma within_limit_Allow:
  assumes "within_limit rl"
  shows "within_limit (snd (Allow rl now ip))"
proof (cases "rl_max rl \<le> 0")
  case True
  with assms show ?thesis by (simp add: Allow_def)
next
  case False
  let ?valid = "keep_after (now + int64 (- rl_window rl)) (stamps rl ip)"
  have le: "int (length ?valid) \<le> rl_max rl"
  proof -
    have "length ?valid \<le> length (stamps rl ip)" by (rule keep_after_length)
    moreover have "int (length (stamps rl ip)) \<le> rl_max rl"
      using assms by (simp add: within_limit_def)
    ultimately show ?thesis by linarith
  qed
  show ?thesis
    unfolding within_limit_def
  proof
    fix ip'
    show "int (length (stamps (snd (Allow rl now ip)) ip')) \<le> rl_max (snd (Allow rl now ip))"
    proof (cases "ip' = ip")
      case True
      with False le show ?thesis
        by (auto simp: Allow_def Let_def stamps_def)
    next
      case other: False
      have "stamps (snd (Allow rl now ip)) ip' = stamps rl ip'"
        using other by (simp add: Allow_def Let_def stamps_def)
      then show ?thesis
        using assms by (simp add: within_limit_def rl_max_Allow)
    qed
  qed
qed

lemma within_limit_cleanup_round:
  assumes "within_limit rl"
  shows "within_limit (cleanup_round rl now)"
  unfolding within_limit_def
proof
  fix ip
  let ?valid = "keep_after (now + int64 (- rl_window rl)) (stamps rl ip)"
  have "length (stamps (cleanup_round rl now) ip) \<le> length (stamps rl ip)"
    using keep_after_length [of "now + int64 (- rl_window rl)" "stamps rl ip"]
    by (auto simp: cleanup_round_def Let_def stamps_def split: option.splits)
  moreover have "int (length (stamps rl ip)) \<le> rl_max rl"
    using assms by (simp add: within_limit_def)
  ultimately show
    "int (length (stamps (cleanup_round rl now) ip)) \<le> rl_max (cleanup_round rl now)"
    by (simp add: rl_max_cleanup_round)
qed

lemma limiter_run_invariant:
  "within_limit rl \<Longrightarrow>
   within_limit (limiter_run rl evs) \<and> rl_max (limiter_run rl evs) = rl_max rl"
proof (induction rl evs rule: limiter_run.induct)
  case (1 rl)
  then show ?case by simp
next
  case (2 rl now ip evs)
  then show ?case by (simp add: within_limit_Allow rl_max_Allow)
next
  case (3 rl now evs)
  then show ?case by (simp add: within_limit_cleanup_round rl_max_cleanup_round)
qed

text \<open>
  Claim C2. With a positive maximum, \<open>Allow\<close> first drops the timestamps of the address
  that are not newer than \<open>now - window\<close>. If as many as the maximum remain, it returns
  false and records nothing; otherwise it records \<open>now\<close> and returns true. The other
  addresses are untouched. The window is an \<open>int64\<close> whose negation does not wrap
  around. Whatever calls of \<open>Allow\<close> and rounds of \<open>cleanup\<close> a new limiter has
  seen, no address holds more than the maximum of timestamps, so no more than the
  maximum are newer than any cutoff.
\<close>

theorem Allow_spec:
  "(0 < rl_max rl \<and> - (2 ^ 63) < rl_window rl \<and> rl_window rl < 2 ^ 63 \<longrightarrow>
      (rl_max rl \<le> int (length (fresh rl now ip)) \<longrightarrow>
         \<not> fst (Allow rl now ip) \<and>
         stamps (snd (Allow rl now ip)) ip = fresh rl now ip) \<and>
      (int (length (fresh rl now ip)) < rl_max rl \<longrightarrow>
         fst (Allow rl now ip) \<and>
         stamps (snd (Allow rl now ip)) ip = fresh rl now ip @ [now]) \<and>
      (\<forall>other. other \<noteq> ip \<longrightarrow>
         rl_entries (snd (Allow rl now ip)) other = rl_entries rl other)) \<and>
   (0 < m \<longrightarrow>
      (\<forall>addr cutoff.
         int (length (filter (\<lambda>t. cutoff < t)
                (stamps (limiter_run (NewRateLimiter windowSeconds m) evs) addr))) \<le> m))"
proof (rule conjI; rule impI)
  assume h: "0 < rl_max rl \<and> - (2 ^ 63) < rl_window rl \<and> rl_window rl < 2 ^ 63"
  then have c: "now + int64 (- rl_window rl) = now - rl_window rl"
    by (simp add: int64_id)
  have v: "keep_after (now + int64 (- rl_window rl)) (stamps rl ip) = fresh rl now ip"
    by (simp add: c keep_after_filter fresh_def)
  have full: "\<not> fst (Allow rl now ip) \<and> stamps (snd (Allow rl now ip)) ip = fresh rl now ip"
    if "rl_max rl \<le> int (length (fresh rl now ip))"
    using h that by (simp add: Allow_def Let_def v stamps_update)
  have room:
    "fst (Allow rl now ip) \<and> stamps (snd (Allow rl now ip)) ip = fresh rl now ip @ [now]"
    if "int (length (fresh rl now ip)) < rl_max rl"
    using h that by (simp add: Allow_def Let_def v stamps_update)
  have others: "\<forall>other. other \<noteq> ip \<longrightarrow>
          rl_entries (snd (Allow rl now ip)) other = rl_entries rl other"
    by (simp add: Allow_def Let_def)
  show "(rl_max rl \<le> int (length (fresh rl now ip)) \<longrightarrow>
           \<not> fst (Allow rl now ip) \<and>
           stamps (snd (Allow rl now ip)) ip = fresh rl now ip) \<and>
        (int (length (fresh rl now ip)) < rl_max rl \<longrightarrow>
           fst (Allow rl now ip) \<and>
           stamps (snd (Allow rl now ip)) ip = fresh rl now ip @ [now]) \<and>
        (\<forall>other. other \<noteq> ip \<longrightarrow>
           rl_entries (snd (Allow rl now ip)) other = rl_entries rl other)"
    using full room others by blast
next
  assume m: "0 < m"
  let ?rl = "limiter_run (NewRateLimiter windowSeconds m) evs"
  have new: "within_limit (NewRateLimiter windowSeconds m)"
    using m by (simp add: within_limit_New)
  have inv: "within_limit ?rl" and mx: "rl_max ?rl = m"
    using limiter_run_invariant [OF new, of evs] by (simp_all add: NewRateLimiter_def)
  show "\<forall>addr cutoff.
          int (length (filter (\<lambda>t. cutoff < t) (stamps ?rl addr))) \<le> m"
  proof (intro allI)
    fix addr cutoff
    have "length (filter (\<lambda>t. cutoff < t) (stamps ?rl addr)) \<le> length (stamps ?rl addr)"
      by simp
    moreover have "int (length (stamps ?rl addr)) \<le> m"
      using inv mx by (simp add: within_limit_def)
    ultimately show "int (length (filter (\<lambda>t. cutoff < t) (stamps ?rl addr))) \<le> m"
      by linarith
  qed
qed

theorem Allow_spec_witness:
  "\<not> fst (Allow busy_limiter 100000000000 ''10.0.0.1'') \<and>
   stamps (snd (Allow busy_limiter 100000000000 ''10.0.0.1'')) ''10.0.0.1'' =
     [70000000000, 80000000000] \<and>
   fst (Allow busy_limiter 135000000000 ''10.0.0.1'') \<and>
   stamps (snd (Allow busy_limiter 135000000000 ''10.0.0.1'')) ''10.0.0.1'' =
     [80000000000, 135000000000] \<and>
   rl_entries (snd (Allow busy_limiter 135000000000 ''10.0.0.1'')) ''10.0.0.2'' = None \<and>
   int (length (filter (\<lambda>t. 0 < t)
     (stamps (limiter_run (NewRateLimiter 60 2)
        [Allow_call 1 ''a'', Allow_call 2 ''a'', Allow_call 3 ''a'', Cleanup_round 4]) ''a'')))
     \<le> 2"
proof -
  have h: "0 < rl_max busy_limiter \<and> - (2 ^ 63) < rl_window busy_limiter \<and>
           rl_window busy_limiter < 2 ^ 63"
    by (simp add: busy_limiter_def)
  have f1: "fresh busy_limiter 100000000000 ''10.0.0.1'' = [70000000000, 80000000000]"
    by (simp add: fresh_def busy_limiter_def stamps_def)
  have f2: "fresh busy_limiter 135000000000 ''10.0.0.1'' = [80000000000]"
    by (simp add: fresh_def busy_limiter_def stamps_def)
  have full: "rl_max busy_limiter \<le> int (length (fresh busy_limiter 100000000000 ''10.0.0.1''))"
    unfolding f1 by (simp add: busy_limiter_def)
  have room: "int (length (fresh busy_limiter 135000000000 ''10.0.0.1'')) < rl_max busy_limiter"
    unfolding f2 by (simp add: busy_limiter_def)
  have other: "''10.0.0.2'' \<noteq> ''10.0.0.1''" by simp
  note allow = Allow_spec [THEN conjunct1, THEN mp, OF h]
  have a: "\<not> fst (Allow busy_limiter 100000000000 ''10.0.0.1'') \<and>
           stamps (snd (Allow busy_limiter 100000000000 ''10.0.0.1'')) ''10.0.0.1'' =
             [70000000000, 80000000000]"
    using allow [THEN conjunct1, THEN mp, OF full] by (simp add: f1)
  have b: "fst (Allow busy_limiter 135000000000 ''10.0.0.1'') \<and>
           stamps (snd (Allow busy_limiter 135000000000 ''10.0.0.1'')) ''10.0.0.1'' =
             [80000000000, 135000000000]"
    using allow [THEN conjunct2, THEN conjunct1, THEN mp, OF room] by (simp add: f2)
  have c: "rl_entries (snd (Allow busy_limiter 135000000000 ''10.0.0.1'')) ''10.0.0.2'' = None"
    using allow [THEN conjunct2, THEN conjunct2, THEN spec, THEN mp, OF other,
        of 135000000000]
    by (simp add: busy_limiter_def)
  have m: "(0::int) < 2" by simp
  have d: "int (length (filter (\<lambda>t. 0 < t)
     (stamps (limiter_run (NewRateLimiter 60 2)
        [Allow_call 1 ''a'', Allow_call 2 ''a'', Allow_call 3 ''a'', Cleanup_round 4]) ''a'')))
     \<le> 2"
    using Allow_spec [THEN conjunct2, THEN mp, OF m, THEN spec, THEN spec] .
  show ?thesis using a b c d by (intro conjI) simp_all
qed

section \<open>Commit and push\<close>

lemma run_git:
  "run env cfg repoDir ''git'' args w =
     (err_of (sys env (trace w) (git_call cfg args)),
      w\<lparr>trace := trace w @ [(git_call cfg args, sys env (trace w) (git_call cfg args))]\<rparr>)"
  by (simp add: run_def cmd_Run_def syscall_def git_call_def Let_def)

lemma git_calls_distinct:
  "push_call cfg \<noteq> pull_call cfg" "pull_call cfg \<noteq> push_call cfg"
  "push_call cfg \<noteq> abort_call cfg" "abort_call cfg \<noteq> push_call cfg"
  "pull_call cfg \<noteq> abort_call cfg" "abort_call cfg \<noteq> pull_call cfg"
  by (simp_all add: push_call_def pull_call_def abort_call_def git_call_def)

lemma itoa_pushMaxRetries: "itoa pushMaxRetries = ''3''"
  by code_simp

lemma push_loop_done:
  "\<not> attempt < pushMaxRetries \<Longrightarrow>
   push_loop env cfg attempt w = (Some ''git push failed after 3 attempts'', w)"
  by (subst push_loop.simps) (simp add: itoa_pushMaxRetries)

lemma push_loop_step:
  assumes "attempt < pushMaxRetries"
  shows "push_loop env cfg attempt w =
     (let rp = sys env (trace w) (push_call cfg);
          w1 = w\<lparr>trace := trace w @ [(push_call cfg, rp)]\<rparr>
      in case rp of
           Inr v \<Rightarrow> (None, w1)
         | Inl e \<Rightarrow>
             (let rq = sys env (trace w1) (pull_call cfg);
                  w2 = w1\<lparr>trace := trace w1 @ [(pull_call cfg, rq)]\<rparr>
              in case rq of
                   Inl pe \<Rightarrow>
                     (Some (''git pull during push retry: '' @ pe),
                      w2\<lparr>trace := trace w2 @
                         [(abort_call cfg, sys env (trace w2) (abort_call cfg))]\<rparr>)
                 | Inr v \<Rightarrow> push_loop env cfg (Suc attempt) w2))"
  using assms
  by (subst push_loop.simps)
     (simp add: run_git pullLocked_def push_call_def pull_call_def abort_call_def
        err_of_def Let_def split: sum.splits)

lemma push_loop_shape:
  "k = pushMaxRetries - attempt \<Longrightarrow> push_loop env cfg attempt w = (r, w') \<Longrightarrow>
   \<exists>tr. trace w' = trace w @ tr \<and> files w' = files w \<and> loop_shape cfg k tr r"
proof (induction k arbitrary: attempt w)
  case 0
  then have "\<not> attempt < pushMaxRetries" by simp
  with 0 have "r = Some ''git push failed after 3 attempts''" and "w' = w"
    by (simp_all add: push_loop_done)
  then show ?case using loop_shape.exhausted by auto
next
  case (Suc k)
  then have lt: "attempt < pushMaxRetries" and k: "k = pushMaxRetries - Suc attempt"
    by simp_all
  let ?rp = "sys env (trace w) (push_call cfg)"
  let ?w1 = "w\<lparr>trace := trace w @ [(push_call cfg, ?rp)]\<rparr>"
  let ?rq = "sys env (trace ?w1) (pull_call cfg)"
  let ?w2 = "?w1\<lparr>trace := trace ?w1 @ [(pull_call cfg, ?rq)]\<rparr>"
  show ?case
  proof (cases ?rp)
    case (Inr v)
    with Suc.prems(2) lt have "r = None" and "w' = ?w1"
      by (simp_all add: push_loop_step Let_def)
    then show ?thesis using Inr loop_shape.pushed [of cfg k v] by auto
  next
    case push: (Inl e)
    show ?thesis
    proof (cases ?rq)
      case (Inl pe)
      with Suc.prems(2) lt push
      have "r = Some (''git pull during push retry: '' @ pe)"
        and "w' = ?w2\<lparr>trace := trace ?w2 @
               [(abort_call cfg, sys env (trace ?w2) (abort_call cfg))]\<rparr>"
        by (simp_all add: push_loop_step Let_def)
      then show ?thesis
        using push Inl
          loop_shape.rebase_failed [of cfg k e pe "sys env (trace ?w2) (abort_call cfg)"]
        by auto
    next
      case (Inr v)
      with Suc.prems(2) lt push have "push_loop env cfg (Suc attempt) ?w2 = (r, w')"
        by (simp add: push_loop_step Let_def)
      from Suc.IH [OF k this] obtain tr where
        tr: "trace w' = trace ?w2 @ tr" "files w' = files ?w2" "loop_shape cfg k tr r"
        by blast
      from tr(3) have "loop_shape cfg (Suc k) ((push_call cfg, Inl e) # (pull_call cfg, Inr v) # tr) r"
        by (rule loop_shape.retried)
      with tr(1,2) push Inr show ?thesis by auto
    qed
  qed
qed

text \<open>What a trace of such a shape tells.\<close>

lemma loop_shape_pushes:
  "loop_shape cfg n tr r \<Longrightarrow> length (filter (\<lambda>ca. fst ca = push_call cfg) tr) \<le> n"
  by (induction rule: loop_shape.induct) (simp_all add: git_calls_distinct)

lemma loop_shape_success:
  "loop_shape cfg n tr r \<Longrightarrow> tr = p @ (push_call cfg, Inr v) # s \<Longrightarrow> s = [] \<and> r = None"
proof (induction arbitrary: p rule: loop_shape.induct)
  case exhausted
  then show ?case by simp
next
  case (pushed n v')
  then show ?case by (cases p) simp_all
next
  case (rebase_failed n e pe a)
  then show ?case
    by (auto simp: Cons_eq_append_conv git_calls_distinct)
next
  case (retried n tr r e v')
  from retried.prems obtain p' where "tr = p' @ (push_call cfg, Inr v) # s"
    by (auto simp: Cons_eq_append_conv git_calls_distinct)
  then show ?case by (rule retried.IH)
qed

lemma loop_shape_pull_failure:
  "loop_shape cfg n tr r \<Longrightarrow> tr = p @ (pull_call cfg, Inl pe) # s \<Longrightarrow>
   (\<exists>a. s = [(abort_call cfg, a)]) \<and> r = Some (''git pull during push retry: '' @ pe)"
proof (induction arbitrary: p rule: loop_shape.induct)
  case exhausted
  then show ?case by simp
next
  case (pushed n v')
  then show ?case by (cases p) (simp_all add: git_calls_distinct)
next
  case (rebase_failed n e pe' a)
  then show ?case
    by (auto simp: Cons_eq_append_conv git_calls_distinct)
next
  case (retried n tr r e v')
  from retried.prems obtain p' where "tr = p' @ (pull_call cfg, Inl pe) # s"
    by (auto simp: Cons_eq_append_conv git_calls_distinct)
  then show ?case by (rule retried.IH)
qed

lemma loop_shape_exhausted:
  "loop_shape cfg n tr r \<Longrightarrow>
   (\<forall>v. (push_call cfg, Inr v) \<notin> set tr) \<Longrightarrow> (\<forall>pe. (pull_call cfg, Inl pe) \<notin> set tr) \<Longrightarrow>
   r = Some ''git push failed after 3 attempts'' \<and>
   length (filter (\<lambda>ca. fst ca = push_call cfg) tr) = n"
  by (induction rule: loop_shape.induct) (simp_all add: git_calls_distinct)

lemma loop_shape_error:
  "loop_shape cfg n tr r \<Longrightarrow> (\<forall>v. (push_call cfg, Inr v) \<notin> set tr) \<Longrightarrow> r \<noteq> None"
  by (induction rule: loop_shape.induct) simp_all

lemma CommitAndPush_loop:
  assumes "CommitAndPush env cfg filePath slug w = (r, w')"
    and "trace w' =
           trace w @ (pull_call cfg, Inr v1) # (git_call cfg [''add'', filePath], Inr v2) #
             (git_call cfg [''commit'', ''-m'', ''Add comment on '' @ slug], Inr v3) # tr"
  shows "loop_shape cfg 3 tr r"
proof -
  let ?r1 = "sys env (trace w) (pull_call cfg)"
  let ?w1 = "w\<lparr>trace := trace w @ [(pull_call cfg, ?r1)]\<rparr>"
  let ?add = "git_call cfg [''add'', filePath]"
  let ?r2 = "sys env (trace ?w1) ?add"
  let ?w2 = "?w1\<lparr>trace := trace ?w1 @ [(?add, ?r2)]\<rparr>"
  let ?commit = "git_call cfg [''commit'', ''-m'', ''Add comment on '' @ slug]"
  let ?r3 = "sys env (trace ?w2) ?commit"
  let ?w3 = "?w2\<lparr>trace := trace ?w2 @ [(?commit, ?r3)]\<rparr>"
  have unfold: "CommitAndPush env cfg filePath slug w =
     (case ?r1 of
        Inl e \<Rightarrow> (Some (''git pull before commit: '' @ e), ?w1)
      | Inr a \<Rightarrow>
          (case ?r2 of
             Inl e \<Rightarrow> (Some (''git add: '' @ e), ?w2)
           | Inr b \<Rightarrow>
               (case ?r3 of
                  Inl e \<Rightarrow> (Some (''git commit: '' @ e), ?w3)
                | Inr c \<Rightarrow> push_loop env cfg 0 ?w3)))"
    by (cases ?r1; cases ?r2; cases ?r3)
       (simp_all add: CommitAndPush_def run_git pullLocked_def pull_call_def err_of_def
          Let_def)
  show ?thesis
  proof (cases ?r1)
    case (Inl e)
    with assms(1) have "w' = ?w1" unfolding unfold by simp
    with assms(2) Inl show ?thesis by auto
  next
    case a: (Inr a)
    show ?thesis
    proof (cases ?r2)
      case (Inl e)
      with assms(1) a have "w' = ?w2" unfolding unfold by simp
      with assms(2) Inl show ?thesis by auto
    next
      case b: (Inr b)
      show ?thesis
      proof (cases ?r3)
        case (Inl e)
        with assms(1) a b have "w' = ?w3" unfolding unfold by simp
        with assms(2) Inl show ?thesis by auto
      next
        case c: (Inr c)
        with assms(1) a b have loop: "push_loop env cfg 0 ?w3 = (r, w')"
          unfolding unfold by simp
        from push_loop_shape [OF _ loop, of 3] obtain tr' where
          tr': "trace w' = trace ?w3 @ tr'" "loop_shape cfg 3 tr' r"
          by (auto simp: pushMaxRetries_def)
        from tr'(1) assms(2) have "tr' = tr" by auto
        with tr'(2) show ?thesis by simp
      qed
    qed
  qed
qed

text \<open>
  Claim C1. Take a call of \<open>CommitAndPush\<close> whose trace starts with a pull, an add and
  a commit that succeed, and let \<open>tr\<close> be the rest of its trace. Then \<open>tr\<close> holds at
  most three pushes. A push that succeeds is the last command, and the call returns
  success. A pull that fails is followed by the abort of the rebase and by nothing
  else, and the call returns the error of that pull. Without a successful push the
  call returns an error, which is the failure after three attempts when no pull failed
  either. The function is total: it returns a value in every case.
\<close>

theorem CommitAndPush_retries:
  assumes "CommitAndPush env cfg filePath slug w = (r, w')"
    and "trace w' =
           trace w @ (pull_call cfg, Inr v1) # (git_call cfg [''add'', filePath], Inr v2) #
             (git_call cfg [''commit'', ''-m'', ''Add comment on '' @ slug], Inr v3) # tr"
  shows "length (filter (\<lambda>ca. fst ca = push_call cfg) tr) \<le> 3 \<and>
    (\<forall>p s v. tr = p @ (push_call cfg, Inr v) # s \<longrightarrow> s = [] \<and> r = None) \<and>
    (\<forall>p s pe. tr = p @ (pull_call cfg, Inl pe) # s \<longrightarrow>
       (\<exists>a. s = [(abort_call cfg, a)]) \<and>
       r = Some (''git pull during push retry: '' @ pe)) \<and>
    ((\<forall>v. (push_call cfg, Inr v) \<notin> set tr) \<longrightarrow> r \<noteq> None) \<and>
    ((\<forall>v. (push_call cfg, Inr v) \<notin> set tr) \<and> (\<forall>pe. (pull_call cfg, Inl pe) \<notin> set tr) \<longrightarrow>
       r = Some ''git push failed after 3 attempts'' \<and>
       length (filter (\<lambda>ca. fst ca = push_call cfg) tr) = 3)"
proof -
  have shape: "loop_shape cfg 3 tr r"
    using assms by (rule CommitAndPush_loop)
  show ?thesis
    using loop_shape_pushes [OF shape] loop_shape_success [OF shape]
      loop_shape_pull_failure [OF shape] loop_shape_error [OF shape]
      loop_shape_exhausted [OF shape]
    by blast
qed

lemmas run_example_simps =
  CommitAndPush_def run_git pullLocked_def push_loop_step push_loop_done pushMaxRetries_def
  empty_world_def err_of_def Let_def pull_call_def push_call_def abort_call_def git_call_def

lemma trace_empty_world: "trace empty_world = []"
  by (simp add: empty_world_def)

lemma flaky_run:
  "CommitAndPush flaky_push_env example_cfg ''c.yml'' ''my-post'' empty_world =
     (None,
      \<lparr>files = Map.empty,
       trace =
         [(pull_call example_cfg, Inr Done),
          (git_call example_cfg [''add'', ''c.yml''], Inr Done),
          (git_call example_cfg [''commit'', ''-m'', ''Add comment on my-post''], Inr Done),
          (push_call example_cfg, Inl ''rejected''),
          (pull_call example_cfg, Inr Done),
          (push_call example_cfg, Inl ''rejected''),
          (pull_call example_cfg, Inr Done),
          (push_call example_cfg, Inr Done)]\<rparr>)"
  by (simp add: run_example_simps flaky_push_env_def)

lemma no_push_run:
  "CommitAndPush no_push_env example_cfg ''c.yml'' ''my-post'' empty_world =
     (Some ''git push failed after 3 attempts'',
      \<lparr>files = Map.empty,
       trace =
         [(pull_call example_cfg, Inr Done),
          (git_call example_cfg [''add'', ''c.yml''], Inr Done),
          (git_call example_cfg [''commit'', ''-m'', ''Add comment on my-post''], Inr Done),
          (push_call example_cfg, Inl ''rejected''),
          (pull_call example_cfg, Inr Done),
          (push_call example_cfg, Inl ''rejected''),
          (pull_call example_cfg, Inr Done),
          (push_call example_cfg, Inl ''rejected''),
          (pull_call example_cfg, Inr Done)]\<rparr>)"
  by (simp add: run_example_simps no_push_env_def)

lemma rebase_fail_run:
  "CommitAndPush rebase_fail_env example_cfg ''c.yml'' ''my-post'' empty_world =
     (Some ''git pull during push retry: conflict'',
      \<lparr>files = Map.empty,
       trace =
         [(pull_call example_cfg, Inr Done),
          (git_call example_cfg [''add'', ''c.yml''], Inr Done),
          (git_call example_cfg [''commit'', ''-m'', ''Add comment on my-post''], Inr Done),
          (push_call example_cfg, Inl ''rejected''),
          (pull_call example_cfg, Inl ''conflict''),
          (abort_call example_cfg, Inr Done)]\<rparr>)"
  by (simp add: run_example_simps rebase_fail_env_def)

theorem CommitAndPush_retries_witness:
  "fst (CommitAndPush flaky_push_env example_cfg ''c.yml'' ''my-post'' empty_world) = None \<and>
   fst (CommitAndPush no_push_env example_cfg ''c.yml'' ''my-post'' empty_world) =
     Some ''git push failed after 3 attempts'' \<and>
   fst (CommitAndPush rebase_fail_env example_cfg ''c.yml'' ''my-post'' empty_world) =
     Some ''git pull during push retry: conflict''"
proof -
  let ?flaky = "CommitAndPush flaky_push_env example_cfg ''c.yml'' ''my-post'' empty_world"
  let ?never = "CommitAndPush no_push_env example_cfg ''c.yml'' ''my-post'' empty_world"
  let ?conflict = "CommitAndPush rebase_fail_env example_cfg ''c.yml'' ''my-post'' empty_world"
  let ?push = "push_call example_cfg"
  let ?pull = "pull_call example_cfg"
  let ?head = "\<lambda>tr. trace empty_world @
      (?pull, Inr Done) # (git_call example_cfg [''add'', ''c.yml''], Inr Done) #
      (git_call example_cfg [''commit'', ''-m'', ''Add comment on '' @ ''my-post''], Inr Done) #
      tr"
  let ?tr1 = "[(?push, Inl ''rejected''), (?pull, Inr Done), (?push, Inl ''rejected''),
               (?pull, Inr Done), (?push, Inr Done)]"
  let ?tr2 = "[(?push, Inl ''rejected''), (?pull, Inr Done), (?push, Inl ''rejected''),
               (?pull, Inr Done), (?push, Inl ''rejected''), (?pull, Inr Done)]"
  let ?tr3 = "[(?push, Inl ''rejected''), (?pull, Inl ''conflict''),
               (abort_call example_cfg, Inr Done)]"
  have t1: "trace (snd ?flaky) = ?head ?tr1"
    by (simp add: flaky_run trace_empty_world)
  have t2: "trace (snd ?never) = ?head ?tr2"
    by (simp add: no_push_run trace_empty_world)
  have t3: "trace (snd ?conflict) = ?head ?tr3"
    by (simp add: rebase_fail_run trace_empty_world)
  have s1: "?tr1 = [(?push, Inl ''rejected''), (?pull, Inr Done), (?push, Inl ''rejected''),
                     (?pull, Inr Done)] @ (?push, Inr Done) # []"
    by simp
  have s2: "(\<forall>v. (?push, Inr v) \<notin> set ?tr2) \<and> (\<forall>pe. (?pull, Inl pe) \<notin> set ?tr2)"
    by (simp add: git_calls_distinct)
  have s3: "?tr3 = [(?push, Inl ''rejected'')] @ (?pull, Inl ''conflict'') #
                     [(abort_call example_cfg, Inr Done)]"
    by simp
  have a: "fst ?flaky = None"
    using CommitAndPush_retries [OF prod.collapse [symmetric] t1, THEN conjunct2,
        THEN conjunct1, rule_format, OF s1]
    by (rule conjunct2)
  have b: "fst ?never = Some ''git push failed after 3 attempts''"
    using CommitAndPush_retries [OF prod.collapse [symmetric] t2, THEN conjunct2,
        THEN conjunct2, THEN conjunct2, THEN conjunct2, THEN mp, OF s2]
    by (rule conjunct1)
  have c: "fst ?conflict = Some ''git pull during push retry: conflict''"
    using CommitAndPush_retries [OF prod.collapse [symmetric] t3, THEN conjunct2,
        THEN conjunct2, THEN conjunct1, rule_format, OF s3]
    by simp
  show ?thesis using a b c by (intro conjI)
qed

section \<open>Host keys\<close>

lemma Dir_knownHostsPath: "Dir knownHostsPath = ''/app/.ssh''"
  by code_simp

lemma scan_unfold:
  "scanHostKeys env host w =
     (case sys env (trace w) (scan_call host) of
        Inl e \<Rightarrow> Inl (''ssh-keyscan '' @ host @ '': '' @ e)
      | Inr v \<Rightarrow> Inr (data_of v),
      w\<lparr>trace := trace w @ [(scan_call host, sys env (trace w) (scan_call host))]\<rparr>)"
  by (simp add: scanHostKeys_def cmd_Output_def syscall_def scan_call_def Let_def
      split: sum.splits)

text \<open>Both ways of fetching keys scan first, whatever follows.\<close>

lemma append_scans_first:
  "\<exists>a s. trace (snd (scanAndAppendHostKeys env host w)) = trace w @ (scan_call host, a) # s"
  by (simp add: scanAndAppendHostKeys_def scan_unfold os_MkdirAll_def os_OpenFile_append_def
      file_Write_def syscall_def Let_def split: sum.splits option.splits)

lemma write_scans_first:
  "\<exists>a s. trace (snd (scanAndWriteHostKeys env host w)) = trace w @ (scan_call host, a) # s"
  by (simp add: scanAndWriteHostKeys_def scan_unfold os_MkdirAll_def os_WriteFile_def
      syscall_def Let_def split: sum.splits option.splits)

text \<open>A successful append keeps what the store held; a successful write does not.\<close>

lemma append_success:
  assumes "fst (scanAndAppendHostKeys env host w) = None"
  shows "\<exists>v. sys env (trace w) (scan_call host) = Inr v \<and>
     files (snd (scanAndAppendHostKeys env host w)) =
       (files w)(knownHostsPath \<mapsto>
          (case files w knownHostsPath of None \<Rightarrow> [] | Some old \<Rightarrow> old) @ data_of v)"
  using assms
  by (auto simp: scanAndAppendHostKeys_def scan_unfold os_MkdirAll_def os_OpenFile_append_def
      file_Write_def syscall_def Let_def err_of_def split: sum.splits option.splits)

lemma write_success:
  assumes "fst (scanAndWriteHostKeys env host w) = None"
  shows "\<exists>v. sys env (trace w) (scan_call host) = Inr v \<and>
     files (snd (scanAndWriteHostKeys env host w)) = (files w)(knownHostsPath \<mapsto> data_of v)"
  using assms
  by (auto simp: scanAndWriteHostKeys_def scan_unfold os_MkdirAll_def os_WriteFile_def
      syscall_def Let_def err_of_def split: sum.splits option.splits)

text \<open>The two forms of a remote URL.\<close>

lemma Contains_char: "Contains s [c] \<longleftrightarrow> c \<in> set s"
  by (induction s) (auto simp: HasPrefix_def)

lemma takeWhile_until: "c \<notin> set a \<Longrightarrow> takeWhile (\<lambda>x. x \<noteq> c) (a @ c # b) = a"
  by (induction a) auto

lemma dropWhile_until: "c \<notin> set a \<Longrightarrow> dropWhile (\<lambda>x. x \<noteq> c) (a @ c # b) = c # b"
  by (induction a) auto

lemma extractHost_ssh_form:
  assumes "CHR ''@'' \<notin> set user" and "CHR '':'' \<notin> set host"
    and "\<not> Contains (user @ ''@'' @ host @ '':'' @ path) ''://''"
  shows "extractHost lib (user @ ''@'' @ host @ '':'' @ path) = host"
proof -
  let ?repo = "user @ ''@'' @ host @ '':'' @ path"
  have at: "Contains ?repo ''@''" and colon: "Contains ?repo '':''"
    by (simp_all add: Contains_char)
  have parts: "SplitN2 ?repo CHR ''@'' ! 1 = host @ '':'' @ path"
    using assms(1) by (simp add: SplitN2_def dropWhile_until)
  have "SplitN2 (host @ '':'' @ path) CHR '':'' ! 0 = host"
    using assms(2) by (simp add: SplitN2_def takeWhile_until)
  with at colon assms(3) parts show ?thesis
    by (simp add: extractHost_def Let_def del: Contains.simps)
qed

lemma extractHost_url_form:
  assumes "Contains repo ''://''"
  shows "extractHost lib repo =
     (case url_Parse lib repo of Inl err \<Rightarrow> [] | Inr u \<Rightarrow> url_Hostname lib u)"
  using assms by (simp add: extractHost_def)

text \<open>
  Claim C6, as the code has it. \<open>ensureHostKeys\<close> does nothing and returns no error when
  strict checking is disabled, also when no host can be read from the URL. With strict
  checking it returns an error when no host can be read, does nothing when the host is
  in the store, and otherwise scans the keys of the host first; when it succeeds, the
  store holds what it held, followed by the scanned keys. \<open>refreshHostKeys\<close> returns an
  error when no host can be read, and otherwise scans first, whatever the store holds
  and whether checking is strict or not; when it succeeds, the store holds the scanned
  keys and nothing else. The host is read from both forms of a URL.
\<close>

theorem host_keys_spec:
  "(SSHInsecure cfg \<longrightarrow> ensureHostKeys lib env cfg w = (None, w)) \<and>
   (\<not> SSHInsecure cfg \<and> extractHost lib (GitRepo cfg) = [] \<longrightarrow>
      ensureHostKeys lib env cfg w =
        (Some (''could not extract host from repo URL: '' @ GitRepo cfg), w)) \<and>
   (\<not> SSHInsecure cfg \<and> extractHost lib (GitRepo cfg) = host \<and> host \<noteq> [] \<and>
    hostInKnownHosts host w \<longrightarrow>
      ensureHostKeys lib env cfg w = (None, w)) \<and>
   (\<not> SSHInsecure cfg \<and> extractHost lib (GitRepo cfg) = host \<and> host \<noteq> [] \<and>
    \<not> hostInKnownHosts host w \<longrightarrow>
      (\<exists>a s. trace (snd (ensureHostKeys lib env cfg w)) = trace w @ (scan_call host, a) # s) \<and>
      (fst (ensureHostKeys lib env cfg w) = None \<longrightarrow>
         (\<exists>v. sys env (trace w) (scan_call host) = Inr v \<and>
              files (snd (ensureHostKeys lib env cfg w)) =
                (files w)(knownHostsPath \<mapsto>
                   (case files w knownHostsPath of None \<Rightarrow> [] | Some old \<Rightarrow> old) @
                   data_of v)))) \<and>
   (extractHost lib (GitRepo cfg) = [] \<longrightarrow>
      refreshHostKeys lib env cfg w =
        (Some (''could not extract host from repo URL: '' @ GitRepo cfg), w)) \<and>
   (extractHost lib (GitRepo cfg) = host \<and> host \<noteq> [] \<longrightarrow>
      (\<exists>a s. trace (snd (refreshHostKeys lib env cfg w)) = trace w @ (scan_call host, a) # s) \<and>
      (fst (refreshHostKeys lib env cfg w) = None \<longrightarrow>
         (\<exists>v. sys env (trace w) (scan_call host) = Inr v \<and>
              files (snd (refreshHostKeys lib env cfg w)) =
                (files w)(knownHostsPath \<mapsto> data_of v)))) \<and>
   (CHR ''@'' \<notin> set user \<and> CHR '':'' \<notin> set h \<and>
    \<not> Contains (user @ ''@'' @ h @ '':'' @ path) ''://'' \<longrightarrow>
      extractHost lib (user @ ''@'' @ h @ '':'' @ path) = h) \<and>
   (Contains repo ''://'' \<longrightarrow>
      extractHost lib repo =
        (case url_Parse lib repo of Inl err \<Rightarrow> [] | Inr u \<Rightarrow> url_Hostname lib u))"
proof -
  have e1: "ensureHostKeys lib env cfg w = (None, w)" if "SSHInsecure cfg"
    using that by (simp add: ensureHostKeys_def)
  have e2: "ensureHostKeys lib env cfg w =
      (Some (''could not extract host from repo URL: '' @ GitRepo cfg), w)"
    if "\<not> SSHInsecure cfg \<and> extractHost lib (GitRepo cfg) = []"
    using that by (simp add: ensureHostKeys_def)
  have e3: "ensureHostKeys lib env cfg w = (None, w)"
    if "\<not> SSHInsecure cfg \<and> extractHost lib (GitRepo cfg) = host \<and> host \<noteq> [] \<and>
        hostInKnownHosts host w"
    using that by (auto simp: ensureHostKeys_def Let_def)
  have e4: "(\<exists>a s. trace (snd (ensureHostKeys lib env cfg w)) =
                trace w @ (scan_call host, a) # s) \<and>
      (fst (ensureHostKeys lib env cfg w) = None \<longrightarrow>
         (\<exists>v. sys env (trace w) (scan_call host) = Inr v \<and>
              files (snd (ensureHostKeys lib env cfg w)) =
                (files w)(knownHostsPath \<mapsto>
                   (case files w knownHostsPath of None \<Rightarrow> [] | Some old \<Rightarrow> old) @
                   data_of v)))"
    if "\<not> SSHInsecure cfg \<and> extractHost lib (GitRepo cfg) = host \<and> host \<noteq> [] \<and>
        \<not> hostInKnownHosts host w"
  proof -
    from that have "ensureHostKeys lib env cfg w = scanAndAppendHostKeys env host w"
      by (auto simp: ensureHostKeys_def Let_def)
    then show ?thesis using append_scans_first append_success by simp
  qed
  have r1: "refreshHostKeys lib env cfg w =
      (Some (''could not extract host from repo URL: '' @ GitRepo cfg), w)"
    if "extractHost lib (GitRepo cfg) = []"
    using that by (simp add: refreshHostKeys_def)
  have r2: "(\<exists>a s. trace (snd (refreshHostKeys lib env cfg w)) =
                trace w @ (scan_call host, a) # s) \<and>
      (fst (refreshHostKeys lib env cfg w) = None \<longrightarrow>
         (\<exists>v. sys env (trace w) (scan_call host) = Inr v \<and>
              files (snd (refreshHostKeys lib env cfg w)) =
                (files w)(knownHostsPath \<mapsto> data_of v)))"
    if "extractHost lib (GitRepo cfg) = host \<and> host \<noteq> []"
  proof -
    from that have "refreshHostKeys lib env cfg w = scanAndWriteHostKeys env host w"
      by (auto simp: refreshHostKeys_def Let_def)
    then show ?thesis using write_scans_first write_success by simp
  qed
  have x1: "extractHost lib (user @ ''@'' @ h @ '':'' @ path) = h"
    if "CHR ''@'' \<notin> set user \<and> CHR '':'' \<notin> set h \<and>
        \<not> Contains (user @ ''@'' @ h @ '':'' @ path) ''://''"
    using that extractHost_ssh_form by blast
  have x2: "extractHost lib repo =
      (case url_Parse lib repo of Inl err \<Rightarrow> [] | Inr u \<Rightarrow> url_Hostname lib u)"
    if "Contains repo ''://''"
    using that by (rule extractHost_url_form)
  show ?thesis
    by (intro conjI impI) (fact e1 e2 e3 r1 x1 x2 | rule e4 [THEN conjunct1]
      | rule e4 [THEN conjunct2, THEN mp] | rule r2 [THEN conjunct1]
      | rule r2 [THEN conjunct2, THEN mp] | assumption)+
qed

text \<open>
  The claim says that both functions return an error when no host can be read from
  the URL. With strict checking disabled and the path of a local repository as the
  remote, no host can be read, and \<open>ensureHostKeys\<close> returns no error.
\<close>

theorem host_keys_counterexample:
  "extractHost simple_lib ''/srv/git/site.git'' = [] \<and>
   ensureHostKeys simple_lib calm_env
     (example_cfg\<lparr>GitRepo := ''/srv/git/site.git'', SSHInsecure := True\<rparr>) empty_world =
     (None, empty_world)"
proof -
  have "extractHost simple_lib ''/srv/git/site.git'' = []" by code_simp
  then show ?thesis by (simp add: ensureHostKeys_def)
qed

theorem host_keys_spec_witness:
  "ensureHostKeys simple_lib calm_env (example_cfg\<lparr>SSHInsecure := True\<rparr>) github_world =
     (None, github_world) \<and>
   fst (ensureHostKeys simple_lib calm_env (example_cfg\<lparr>GitRepo := ''/srv/git/site.git''\<rparr>)
     github_world) = Some ''could not extract host from repo URL: /srv/git/site.git'' \<and>
   ensureHostKeys simple_lib calm_env example_cfg github_world = (None, github_world) \<and>
   files (snd (ensureHostKeys simple_lib calm_env selfhosted_cfg github_world)) knownHostsPath =
     Some (''github.com ssh-ed25519 AAAAC3Nz'' @ [CHR 0x0A] @
           ''git.example.org ssh-ed25519 AAAAC3Nz'' @ [CHR 0x0A]) \<and>
   fst (refreshHostKeys simple_lib calm_env (example_cfg\<lparr>GitRepo := ''/srv/git/site.git''\<rparr>)
     github_world) = Some ''could not extract host from repo URL: /srv/git/site.git'' \<and>
   files (snd (refreshHostKeys simple_lib calm_env selfhosted_cfg github_world)) knownHostsPath =
     Some (''git.example.org ssh-ed25519 AAAAC3Nz'' @ [CHR 0x0A]) \<and>
   extractHost simple_lib ''git@github.com:you/your-site.git'' = ''github.com'' \<and>
   extractHost simple_lib ''https://gitlab.com/you/site.git'' = ''gitlab.com''"
proof -
  let ?local = "example_cfg\<lparr>GitRepo := ''/srv/git/site.git''\<rparr>"
  have insecure: "SSHInsecure (example_cfg\<lparr>SSHInsecure := True\<rparr>)" by simp
  have nohost: "\<not> SSHInsecure ?local \<and> extractHost simple_lib (GitRepo ?local) = []"
    by code_simp
  have known: "\<not> SSHInsecure example_cfg \<and>
      extractHost simple_lib (GitRepo example_cfg) = ''github.com'' \<and> ''github.com'' \<noteq> [] \<and>
      hostInKnownHosts ''github.com'' github_world"
    by code_simp
  have unknown: "\<not> SSHInsecure selfhosted_cfg \<and>
      extractHost simple_lib (GitRepo selfhosted_cfg) = ''git.example.org'' \<and>
      ''git.example.org'' \<noteq> [] \<and> \<not> hostInKnownHosts ''git.example.org'' github_world"
    by code_simp
  have scanned: "sys calm_env (trace github_world) (scan_call ''git.example.org'') =
      Inr (Data (''git.example.org ssh-ed25519 AAAAC3Nz'' @ [CHR 0x0A]))"
    by (simp add: calm_env_def scan_call_def)
  have old: "files github_world knownHostsPath =
      Some (''github.com ssh-ed25519 AAAAC3Nz'' @ [CHR 0x0A])"
    by (simp add: github_world_def)
  have ok1: "fst (ensureHostKeys simple_lib calm_env selfhosted_cfg github_world) = None"
    by code_simp
  have ok2: "fst (refreshHostKeys simple_lib calm_env selfhosted_cfg github_world) = None"
    by code_simp
  have a: "ensureHostKeys simple_lib calm_env (example_cfg\<lparr>SSHInsecure := True\<rparr>) github_world =
      (None, github_world)"
    using host_keys_spec [THEN conjunct1, THEN mp, OF insecure] .
  have b: "fst (ensureHostKeys simple_lib calm_env ?local github_world) =
      Some ''could not extract host from repo URL: /srv/git/site.git''"
    using host_keys_spec [THEN conjunct2, THEN conjunct1, THEN mp, OF nohost,
        of calm_env github_world]
    by simp
  have c: "ensureHostKeys simple_lib calm_env example_cfg github_world = (None, github_world)"
    using host_keys_spec [THEN conjunct2, THEN conjunct2, THEN conjunct1, THEN mp, OF known] .
  have d: "files (snd (ensureHostKeys simple_lib calm_env selfhosted_cfg github_world))
      knownHostsPath =
      Some (''github.com ssh-ed25519 AAAAC3Nz'' @ [CHR 0x0A] @
            ''git.example.org ssh-ed25519 AAAAC3Nz'' @ [CHR 0x0A])"
    using host_keys_spec [THEN conjunct2, THEN conjunct2, THEN conjunct2, THEN conjunct1,
        THEN mp, OF unknown, THEN conjunct2, THEN mp, OF ok1] scanned old
    by (auto simp: data_of_def)
  have e: "fst (refreshHostKeys simple_lib calm_env ?local github_world) =
      Some ''could not extract host from repo URL: /srv/git/site.git''"
    using host_keys_spec [THEN conjunct2, THEN conjunct2, THEN conjunct2, THEN conjunct2,
        THEN conjunct1, THEN mp, OF nohost [THEN conjunct2], of calm_env github_world]
    by simp
  have f: "files (snd (refreshHostKeys simple_lib calm_env selfhosted_cfg github_world))
      knownHostsPath = Some (''git.example.org ssh-ed25519 AAAAC3Nz'' @ [CHR 0x0A])"
    using host_keys_spec [THEN conjunct2, THEN conjunct2, THEN conjunct2, THEN conjunct2,
        THEN conjunct2, THEN conjunct1, THEN mp,
        OF conjI [OF unknown [THEN conjunct2, THEN conjunct1]
                     unknown [THEN conjunct2, THEN conjunct2, THEN conjunct1]],
        THEN conjunct2, THEN mp, OF ok2] scanned
    by (auto simp: data_of_def)
  have form: "CHR ''@'' \<notin> set ''git'' \<and> CHR '':'' \<notin> set ''github.com'' \<and>
      \<not> Contains (''git'' @ ''@'' @ ''github.com'' @ '':'' @ ''you/your-site.git'') ''://''"
    by code_simp
  have g: "extractHost simple_lib ''git@github.com:you/your-site.git'' = ''github.com''"
    using host_keys_spec [THEN conjunct2, THEN conjunct2, THEN conjunct2, THEN conjunct2,
        THEN conjunct2, THEN conjunct2, THEN conjunct1, THEN mp, OF form, of simple_lib]
    by simp
  have url: "Contains ''https://gitlab.com/you/site.git'' ''://''" by code_simp
  have parsed: "(case url_Parse simple_lib ''https://gitlab.com/you/site.git'' of
      Inl err \<Rightarrow> [] | Inr u \<Rightarrow> url_Hostname simple_lib u) = ''gitlab.com''"
    by code_simp
  have h: "extractHost simple_lib ''https://gitlab.com/you/site.git'' = ''gitlab.com''"
    using host_keys_spec [THEN conjunct2, THEN conjunct2, THEN conjunct2, THEN conjunct2,
        THEN conjunct2, THEN conjunct2, THEN conjunct2, THEN mp, OF url, of simple_lib] parsed
    by simp
  show ?thesis using a b c d e f g h by (intro conjI)
qed

section \<open>Paths\<close>

lemma Split_nonempty: "Split s sep \<noteq> []"
  by (induction s) (auto split: list.splits)

lemma Split_plain: "sep \<notin> set e \<Longrightarrow> Split e sep = [e]"
  by (induction e) (auto split: list.splits)

lemma Split_sep: "sep \<notin> set e \<Longrightarrow> Split (e @ sep # t) sep = e # Split t sep"
  by (induction e) (auto split: list.splits)

lemma Split_snoc: "sep \<notin> set n \<Longrightarrow> Split (p @ sep # n) sep = Split p sep @ [n]"
proof (induction p)
  case Nil
  then show ?case by (simp add: Split_plain)
next
  case (Cons c p)
  then show ?case using Split_nonempty [of p sep] by (cases "Split p sep") auto
qed

lemma Split_elements: "e \<in> set (Split s sep) \<Longrightarrow> sep \<notin> set e"
  by (induction s arbitrary: e) (auto split: list.splits if_splits)

lemma Join_strings_snoc:
  "Join_strings (xs @ [n]) sep = (if xs = [] then n else Join_strings xs sep @ sep @ n)"
proof (induction xs)
  case Nil
  then show ?case by simp
next
  case (Cons e es)
  then show ?case by (cases es) simp_all
qed

lemma Join_strings_Cons:
  "Join_strings (e # es) sep = (if es = [] then e else e @ sep @ Join_strings es sep)"
  by (cases es) simp_all

lemma Split_Join_strings:
  "xs \<noteq> [] \<Longrightarrow> \<forall>e\<in>set xs. CHR ''/'' \<notin> set e \<Longrightarrow>
   Split (Join_strings xs ''/'') CHR ''/'' = xs"
proof (induction xs)
  case Nil
  then show ?case by simp
next
  case (Cons e es)
  then show ?case by (cases es) (simp_all add: Split_plain Split_sep)
qed

lemma Join_strings_hd:
  "xs \<noteq> [] \<Longrightarrow> hd xs \<noteq> [] \<Longrightarrow> hd (Join_strings xs sep) = hd (hd xs)"
  by (cases xs) (simp_all add: Join_strings_Cons)

lemma Join_strings_Nil_iff:
  "\<forall>e\<in>set xs. e \<noteq> [] \<Longrightarrow> Join_strings xs sep = [] \<longleftrightarrow> xs = []"
  by (cases xs) (simp_all add: Join_strings_Cons)

lemma Join_strings_not_dot:
  "\<forall>e\<in>set xs. e \<noteq> [] \<and> e \<noteq> ''.'' \<Longrightarrow> Join_strings xs ''/'' \<noteq> ''.''"
  by (cases xs) (auto simp: Join_strings_Cons append_eq_Cons_conv)

lemma clean_step_plain: "plain_name n \<Longrightarrow> clean_step r out n = n # out"
  by (simp add: clean_step_def plain_name_def)

lemma clean_step_normal:
  assumes s: "s = names @ replicate k ''..''" and r: "r \<longrightarrow> k = 0"
    and names: "\<forall>n\<in>set names. plain_name n" and c: "CHR ''/'' \<notin> set c"
  shows "\<exists>k' names'. clean_step r s c = names' @ replicate k' ''..'' \<and> (r \<longrightarrow> k' = 0) \<and>
           (\<forall>n\<in>set names'. plain_name n)"
proof -
  consider (skip) "c = [] \<or> c = ''.''" | (up) "c = ''..''" | (name) "plain_name c"
    using c by (auto simp: plain_name_def)
  then show ?thesis
  proof cases
    case skip
    then have "clean_step r s c = s" by (auto simp: clean_step_def)
    with s r names show ?thesis by blast
  next
    case up
    show ?thesis
    proof (cases names)
      case Nil
      show ?thesis
      proof (cases k)
        case 0
        with Nil s up have "clean_step r s c = (if r then [] else [] @ replicate 1 ''..'')"
          by (simp add: clean_step_def)
        then show ?thesis
          by (cases r) (auto intro: exI [of _ 0] exI [of _ 1] exI [of _ "[]"])
      next
        case (Suc j)
        with Nil s up have "clean_step r s c = [] @ replicate (Suc k) ''..''"
          by (simp add: clean_step_def)
        moreover from Suc r have "\<not> r" by simp
        ultimately show ?thesis by (metis empty_iff list.set(1))
      qed
    next
      case (Cons n ns)
      with names have "n \<noteq> ''..''" by (auto simp: plain_name_def)
      with Cons s up have "clean_step r s c = ns @ replicate k ''..''"
        by (simp add: clean_step_def)
      with names Cons r show ?thesis by (metis list.set_intros(2))
    qed
  next
    case name
    then have "clean_step r s c = (c # names) @ replicate k ''..''"
      by (simp add: clean_step_plain s)
    moreover have "\<forall>n\<in>set (c # names). plain_name n" using name names by simp
    ultimately show ?thesis using r by blast
  qed
qed

lemma foldl_clean_normal:
  "\<forall>c\<in>set cs. CHR ''/'' \<notin> set c \<Longrightarrow>
   \<exists>k names. foldl (clean_step r) [] cs = names @ replicate k ''..'' \<and> (r \<longrightarrow> k = 0) \<and>
     (\<forall>n\<in>set names. plain_name n)"
proof (induction cs rule: rev_induct)
  case Nil
  show ?case by (rule exI [of _ 0], rule exI [of _ "[]"]) simp
next
  case (snoc c cs)
  then obtain k names where
    "foldl (clean_step r) [] cs = names @ replicate k ''..''" "r \<longrightarrow> k = 0"
    "\<forall>n\<in>set names. plain_name n"
    by auto
  moreover from snoc.prems have "CHR ''/'' \<notin> set c" by simp
  ultimately show ?case using clean_step_normal [of _ names k r c] by simp
qed

lemma foldl_clean_ups:
  "\<not> r \<Longrightarrow> foldl (clean_step r) [] (replicate k ''..'') = replicate k ''..''"
proof (induction k)
  case 0
  show ?case by simp
next
  case (Suc k)
  have "replicate (Suc k) ''..'' = replicate k ''..'' @ [''..'']"
    by (simp add: replicate_append_same)
  then have "foldl (clean_step r) [] (replicate (Suc k) ''..'') =
      clean_step r (replicate k ''..'') ''..''"
    using Suc by (simp del: replicate_Suc)
  also have "\<dots> = ''..'' # replicate k ''..''"
    using Suc.prems by (cases k) (simp_all add: clean_step_def)
  finally show ?case by simp
qed

lemma foldl_clean_names:
  "\<forall>n\<in>set ns. plain_name n \<Longrightarrow> foldl (clean_step r) acc ns = rev ns @ acc"
  by (induction ns arbitrary: acc) (simp_all add: clean_step_plain)

lemma foldl_clean_fixed:
  assumes "r \<longrightarrow> k = 0" and "\<forall>n\<in>set names. plain_name n"
  shows "foldl (clean_step r) [] (replicate k ''..'' @ names) = rev names @ replicate k ''..''"
proof -
  have "foldl (clean_step r) [] (replicate k ''..'') = replicate k ''..''"
    using assms(1) by (cases r) (simp_all add: foldl_clean_ups)
  then show ?thesis using assms(2) by (simp add: foldl_clean_names)
qed

lemma IsAbs_iff: "IsAbs p \<longleftrightarrow> p \<noteq> [] \<and> hd p = CHR ''/''"
  by (cases p) (simp_all add: IsAbs_def HasPrefix_def)

lemma plain_name_elements:
  assumes "\<forall>n\<in>set names. plain_name n"
  shows "\<forall>e\<in>set (replicate k ''..'' @ names).
           e \<noteq> [] \<and> e \<noteq> ''.'' \<and> CHR ''/'' \<notin> set e \<and> hd e \<noteq> CHR ''/''"
proof
  fix e assume "e \<in> set (replicate k ''..'' @ names)"
  then have "e = ''..'' \<or> plain_name e" using assms by auto
  then show "e \<noteq> [] \<and> e \<noteq> ''.'' \<and> CHR ''/'' \<notin> set e \<and> hd e \<noteq> CHR ''/''"
    by (cases e) (auto simp: plain_name_def)
qed

lemma Clean_eq:
  assumes "p \<noteq> []" and "(hd p = CHR ''/'') = r"
    and "rev (foldl (clean_step r) [] (Split p CHR ''/'')) = out"
  shows "Clean p =
     (if r then CHR ''/'' # Join_strings out ''/''
      else if Join_strings out ''/'' = [] then ''.'' else Join_strings out ''/'')"
  using assms by (auto simp: Clean_def Let_def)

text \<open>
  What \<open>Clean\<close> returns: for a rooted path the names that remain, after the root; for
  another path some \<open>..\<close> elements and then the names that remain, or \<open>.\<close> when nothing
  remains.
\<close>

lemma Clean_form:
  "\<exists>k names. (\<forall>n\<in>set names. plain_name n) \<and> (IsAbs p \<longrightarrow> k = 0) \<and>
     Clean p =
       (if IsAbs p then CHR ''/'' # Join_strings names ''/''
        else if k = 0 \<and> names = [] then ''.''
        else Join_strings (replicate k ''..'' @ names) ''/'')"
proof (cases "p = []")
  case True
  show ?thesis
    by (rule exI [of _ 0], rule exI [of _ "[]"]) (simp add: True Clean_def IsAbs_iff)
next
  case False
  have "\<forall>c\<in>set (Split p CHR ''/''). CHR ''/'' \<notin> set c" by (simp add: Split_elements)
  from foldl_clean_normal [OF this, of "IsAbs p"] obtain k names where
    s: "foldl (clean_step (IsAbs p)) [] (Split p CHR ''/'') = names @ replicate k ''..''"
    and k: "IsAbs p \<longrightarrow> k = 0" and names: "\<forall>n\<in>set names. plain_name n"
    by blast
  have names': "\<forall>n\<in>set (rev names). plain_name n" using names by simp
  have rooted: "(hd p = CHR ''/'') = IsAbs p" using False by (simp add: IsAbs_iff)
  have "\<forall>e\<in>set (replicate k ''..'' @ rev names). e \<noteq> []"
    using plain_name_elements [OF names'] by blast
  then have empty: "Join_strings (replicate k ''..'' @ rev names) ''/'' = [] \<longleftrightarrow>
      replicate k ''..'' @ rev names = []"
    by (rule Join_strings_Nil_iff)
  let ?s = "foldl (clean_step (IsAbs p)) [] (Split p CHR ''/'')"
  have cl: "Clean p =
      (if IsAbs p then CHR ''/'' # Join_strings (rev ?s) ''/''
       else if Join_strings (rev ?s) ''/'' = [] then ''.''
       else Join_strings (rev ?s) ''/'')"
    using False by (simp add: Clean_def Let_def rooted)
  have rv: "rev ?s = replicate k ''..'' @ rev names" by (simp add: s)
  have "Clean p =
      (if IsAbs p then CHR ''/'' # Join_strings (rev names) ''/''
       else if k = 0 \<and> rev names = [] then ''.''
       else Join_strings (replicate k ''..'' @ rev names) ''/'')"
    unfolding cl rv using k empty by auto
  with names' k show ?thesis by blast
qed

lemma Clean_dot: "Clean ''.'' = ''.''"
  by code_simp

lemma Clean_fixed_rooted:
  assumes "\<forall>n\<in>set names. plain_name n"
  shows "Clean (CHR ''/'' # Join_strings names ''/'') = CHR ''/'' # Join_strings names ''/''"
proof (cases "names = []")
  case True
  then show ?thesis by (simp add: Clean_def clean_step_def)
next
  case False
  have "\<forall>e\<in>set names. CHR ''/'' \<notin> set e"
    using plain_name_elements [OF assms, of 0] by simp
  with False have "Split (Join_strings names ''/'') CHR ''/'' = names"
    by (rule Split_Join_strings)
  moreover have "clean_step True [] [] = []" by (simp add: clean_step_def)
  ultimately show ?thesis using assms by (simp add: Clean_def foldl_clean_names)
qed

lemma Clean_fixed_relative:
  assumes names: "\<forall>n\<in>set names. plain_name n" and ne: "replicate k ''..'' @ names \<noteq> []"
  shows "Clean (Join_strings (replicate k ''..'' @ names) ''/'') =
           Join_strings (replicate k ''..'' @ names) ''/''"
proof -
  let ?xs = "replicate k ''..'' @ names"
  note el = plain_name_elements [OF names, of k]
  have split: "Split (Join_strings ?xs ''/'') CHR ''/'' = ?xs"
    using ne el by (intro Split_Join_strings) blast+
  have body: "Join_strings ?xs ''/'' \<noteq> []"
    using ne el Join_strings_Nil_iff [of ?xs "''/''"] by blast
  have "hd ?xs \<in> set ?xs" using ne by (rule hd_in_set)
  with el have "hd ?xs \<noteq> []" "hd (hd ?xs) \<noteq> CHR ''/''" by blast+
  with ne have hd: "hd (Join_strings ?xs ''/'') \<noteq> CHR ''/''"
    by (simp only: Join_strings_hd not_False_eq_True)
  have "foldl (clean_step False) [] ?xs = rev names @ replicate k ''..''"
    using names by (intro foldl_clean_fixed) simp_all
  then show ?thesis using body hd by (simp add: Clean_def split Let_def)
qed

lemma Clean_idem: "Clean (Clean p) = Clean p"
proof -
  from Clean_form [of p] obtain k names where
    names: "\<forall>n\<in>set names. plain_name n" and k: "IsAbs p \<longrightarrow> k = 0"
    and c: "Clean p =
       (if IsAbs p then CHR ''/'' # Join_strings names ''/''
        else if k = 0 \<and> names = [] then ''.''
        else Join_strings (replicate k ''..'' @ names) ''/'')"
    by blast
  consider (rooted) "IsAbs p" | (dot) "\<not> IsAbs p" "k = 0 \<and> names = []"
    | (rel) "\<not> IsAbs p" "\<not> (k = 0 \<and> names = [])"
    by blast
  then show ?thesis
  proof cases
    case rooted
    then show ?thesis using c Clean_fixed_rooted [OF names] by simp
  next
    case dot
    then show ?thesis using c Clean_dot by simp
  next
    case rel
    then have "Clean p = Join_strings (replicate k ''..'' @ names) ''/''" using c by auto
    moreover from rel(2) have "replicate k ''..'' @ names \<noteq> []" by simp
    ultimately show ?thesis using Clean_fixed_relative [OF names] by simp
  qed
qed

text \<open>A name added to a path is the entry of that name below the cleaned path.\<close>

lemma Clean_snoc:
  assumes p: "p \<noteq> []" and n: "plain_name n"
  shows "Clean (p @ CHR ''/'' # n) = below (Clean p) n"
proof -
  define r where "r = (hd p = CHR ''/'')"
  define s where "s = foldl (clean_step r) [] (Split p CHR ''/'')"
  define body where "body = Join_strings (rev s) ''/''"
  have "\<forall>c\<in>set (Split p CHR ''/''). CHR ''/'' \<notin> set c" by (simp add: Split_elements)
  from foldl_clean_normal [OF this, of r] obtain k names where
    s: "s = names @ replicate k ''..''" and names: "\<forall>n\<in>set names. plain_name n"
    unfolding s_def by blast
  have names': "\<forall>n\<in>set (rev names). plain_name n" using names by simp
  have rev: "rev s = replicate k ''..'' @ rev names" by (simp add: s)
  note el = plain_name_elements [OF names', of k, folded rev]
  have slash: "CHR ''/'' \<notin> set n" and n0: "n \<noteq> []" using n by (simp_all add: plain_name_def)
  have hd: "(hd (p @ CHR ''/'' # n) = CHR ''/'') = r" using p by (simp add: r_def)
  have "foldl (clean_step r) [] (Split (p @ CHR ''/'' # n) CHR ''/'') = n # s"
    by (simp add: Split_snoc [OF slash] clean_step_plain [OF n] s_def)
  then have "rev (foldl (clean_step r) [] (Split (p @ CHR ''/'' # n) CHR ''/'')) = rev s @ [n]"
    by simp
  from Clean_eq [OF _ hd this] have new: "Clean (p @ CHR ''/'' # n) =
      (if r then CHR ''/'' # (if s = [] then n else body @ ''/'' @ n)
       else (if s = [] then n else body @ ''/'' @ n))"
    using n0 by (simp add: Join_strings_snoc body_def)
  have old: "Clean p = (if r then CHR ''/'' # body else if body = [] then ''.'' else body)"
    using Clean_eq [OF p, of r "rev s"] by (simp add: r_def s_def body_def)
  have empty: "body = [] \<longleftrightarrow> s = []"
    unfolding body_def using el Join_strings_Nil_iff [of "rev s" "''/''"] by auto
  have dot: "body \<noteq> ''.''"
    unfolding body_def using el by (intro Join_strings_not_dot) blast
  have root: "body \<noteq> ''/''" if "s \<noteq> []"
  proof -
    from that have ne: "rev s \<noteq> []" by simp
    then have "hd (rev s) \<in> set (rev s)" by (rule hd_in_set)
    with el have "hd (rev s) \<noteq> []" "hd (hd (rev s)) \<noteq> CHR ''/''" by blast+
    with ne have "hd (Join_strings (rev s) ''/'') \<noteq> CHR ''/''"
      by (simp only: Join_strings_hd not_False_eq_True)
    then show ?thesis unfolding body_def by auto
  qed
  show ?thesis
  proof (cases "s = []")
    case True
    with empty have "body = []" by simp
    with True show ?thesis unfolding new old below_def by simp
  next
    case False
    with empty root dot have "body \<noteq> []" "body \<noteq> ''/''" "body \<noteq> ''.''" by simp_all
    with False show ?thesis unfolding new old below_def by (cases r) simp_all
  qed
qed

section \<open>Writing a comment\<close>

lemma hex_digit_range: "n < 16 \<Longrightarrow> hex_digit n \<in> set ''0123456789abcdef''"
  unfolding hex_digit_def by (rule nth_mem) simp

lemma rune_less: "rune c < 256"
  by (cases c) (simp add: rune_def)

lemma hex_length: "length (hex b) = 2 * length b"
  by (induction b) (simp_all add: hex_def)

lemma hex_digits: "set (hex b) \<subseteq> set ''0123456789abcdef''"
proof -
  have "rune c div 16 < 16" and "rune c mod 16 < 16" for c
    using rune_less [of c] by simp_all
  then have "hex_digit (rune c div 16) \<in> set ''0123456789abcdef'' \<and>
             hex_digit (rune c mod 16) \<in> set ''0123456789abcdef''" for c
    using hex_digit_range by blast
  then show ?thesis unfolding hex_def by auto
qed

lemma decimal_digit_range: "n < 10 \<Longrightarrow> ''0123456789'' ! n \<in> set ''0123456789''"
  by (rule nth_mem) simp

lemma itoa_digits: "set (itoa n) \<subseteq> set ''0123456789''"
proof (induction n rule: itoa.induct)
  case (1 n)
  show ?case
  proof (cases "n < 10")
    case True
    then show ?thesis using decimal_digit_range [of n] by (subst itoa.simps) simp
  next
    case False
    have "n mod 10 < 10" by simp
    then have "''0123456789'' ! (n mod 10) \<in> set ''0123456789''"
      by (rule decimal_digit_range)
    with False 1 show ?thesis by (subst itoa.simps) simp
  qed
qed

lemma pad_digits: "set (pad n k) \<subseteq> set ''0123456789''"
  using itoa_digits [of k] by (auto simp: pad_def)

lemma format_stamp_digits: "set (format_stamp t) \<subseteq> set ''0123456789''"
  unfolding format_stamp_def set_append using pad_digits by blast

text \<open>The names \<open>writeComment\<close> joins to the comments path are names of entries.\<close>

lemma slug_plain_name: "isValidSlug s \<Longrightarrow> plain_name s"
  by (auto simp: isValidSlug_iff plain_name_def slug_alphabet_def)

lemma filename_plain_name:
  assumes "set ts \<subseteq> set ''0123456789''" and "set rnd \<subseteq> set ''0123456789abcdef''"
  shows "plain_name (ts @ ''-'' @ rnd @ ''.yml'')"
proof -
  define x where "x = ts @ ''-'' @ rnd @ ''.yml''"
  have "last x = CHR ''l''" by (simp add: x_def)
  then have "x \<noteq> []" "x \<noteq> ''.''" "x \<noteq> ''..''" by (auto simp: x_def)
  moreover have "CHR ''/'' \<notin> set x"
    using assms by (auto simp: x_def)
  ultimately show ?thesis unfolding x_def [symmetric] by (simp add: plain_name_def)
qed

lemma Clean_name: "plain_name n \<Longrightarrow> Clean n = n"
  using Clean_fixed_relative [of "[n]" 0] by simp

lemma Join_name: "plain_name n \<Longrightarrow> Join [p, n] = below (Clean p) n"
proof (cases "p = []")
  case True
  assume "plain_name n"
  moreover have "Clean [] = ''.''" by (simp add: Clean_def)
  ultimately show ?thesis using True by (simp add: Join_def Clean_name below_def plain_name_def)
next
  case False
  assume "plain_name n"
  then show ?thesis using False Clean_snoc [of p n] by (simp add: Join_def)
qed

lemma Join_Clean: "plain_name n \<Longrightarrow> Clean (Join [p, n]) = Join [p, n]"
  by (cases "p = []") (simp_all add: Join_def Clean_idem plain_name_def)

lemma below_name: "plain_name n \<Longrightarrow> below root n \<noteq> ''.'' \<and> below root n \<noteq> ''/''"
  by (auto simp: below_def plain_name_def append_eq_Cons_conv)

lemma below_append: "root \<noteq> ''.'' \<Longrightarrow> root \<noteq> ''/'' \<Longrightarrow> below root n = root @ ''/'' @ n"
  by (simp add: below_def)

lemma Join_names:
  assumes "plain_name slug" and "plain_name filename"
  shows "Join [Join [root, slug], filename] = below (Clean root) slug @ ''/'' @ filename"
proof -
  have 1: "Join [Join [root, slug], filename] = below (Clean (Join [root, slug])) filename"
    using assms(2) by (rule Join_name)
  have 2: "Clean (Join [root, slug]) = Join [root, slug]"
    using assms(1) by (rule Join_Clean)
  have 3: "Join [root, slug] = below (Clean root) slug"
    using assms(1) by (rule Join_name)
  have 4: "below (below (Clean root) slug) filename =
      below (Clean root) slug @ ''/'' @ filename"
    using below_name [OF assms(1), of "Clean root"] by (intro below_append) simp_all
  show ?thesis by (simp only: 1 2) (simp only: 3 4)
qed

text \<open>
  A comments path that \<open>LoadConfig\<close> accepts is \<open>.\<close> or a sequence of names; a path of
  names stays as it is below the directory of the repository.
\<close>

lemma LoadConfig_CommentsPath_form:
  assumes "LoadConfig_CommentsPath p = Inr q"
  shows "q = ''.'' \<or>
     (\<exists>names. names \<noteq> [] \<and> (\<forall>n\<in>set names. plain_name n) \<and> q = Join_strings names ''/'')"
proof -
  from assms have rel: "\<not> IsAbs p" and q: "q = Clean p" and up: "\<not> HasPrefix q ''..''"
    by (auto simp: LoadConfig_CommentsPath_def Let_def split: if_splits)
  from Clean_form [of p] rel q obtain k names where
    names: "\<forall>n\<in>set names. plain_name n"
    and c: "q = (if k = 0 \<and> names = [] then ''.''
                 else Join_strings (replicate k ''..'' @ names) ''/'')"
    by auto
  show ?thesis
  proof (cases "k = 0")
    case True
    with c names show ?thesis by (cases "names = []") auto
  next
    case False
    then obtain j where "k = Suc j" by (cases k) auto
    with c have "q = Join_strings (''..'' # replicate j ''..'' @ names) ''/''" by simp
    then have "HasPrefix q ''..''"
      by (simp add: Join_strings_Cons HasPrefix_def split: if_splits)
    with up show ?thesis by simp
  qed
qed

lemma Join_strings_names:
  assumes "names \<noteq> []" and "\<forall>n\<in>set names. plain_name n"
  shows "Join_strings names ''/'' \<noteq> ''.''" and "Join_strings names ''/'' \<noteq> ''/''"
proof -
  note el = plain_name_elements [OF assms(2), of 0]
  show "Join_strings names ''/'' \<noteq> ''.''"
    using el by (intro Join_strings_not_dot) simp
  have "hd names \<in> set names" using assms(1) by (rule hd_in_set)
  with el have "hd names \<noteq> []" "hd (hd names) \<noteq> CHR ''/''" by simp_all
  with assms(1) have "hd (Join_strings names ''/'') \<noteq> CHR ''/''"
    by (simp only: Join_strings_hd not_False_eq_True)
  then show "Join_strings names ''/'' \<noteq> ''/''" by auto
qed

lemma below_names:
  assumes "names \<noteq> []" and "\<forall>n\<in>set names. plain_name n"
  shows "below (Join_strings names ''/'') n = Join_strings (names @ [n]) ''/''"
  using assms Join_strings_names [OF assms] by (simp add: below_def Join_strings_snoc)

lemma FullPath_names:
  assumes "names \<noteq> []" and "\<forall>n\<in>set names. plain_name n"
  shows "FullPath (Join_strings names ''/'') = repoDir @ ''/'' @ Join_strings names ''/''"
proof -
  have el: "\<forall>e\<in>set names. e \<noteq> []" using plain_name_elements [OF assms(2), of 0] by simp
  have ne: "Join_strings names ''/'' \<noteq> []"
    using assms(1) Join_strings_Nil_iff [OF el] by simp
  have all: "\<forall>n\<in>set (''app'' # ''repo'' # names). plain_name n"
    using assms(2) by (simp add: plain_name_def)
  have "repoDir @ ''/'' @ Join_strings names ''/'' =
      CHR ''/'' # Join_strings (''app'' # ''repo'' # names) ''/''"
    using assms(1) by (simp add: repoDir_def Join_strings_Cons)
  moreover have "FullPath (Join_strings names ''/'') =
      Clean (repoDir @ ''/'' @ Join_strings names ''/'')"
    by (simp add: FullPath_def Join_def repoDir_def)
  ultimately show ?thesis using Clean_fixed_rooted [OF all] by simp
qed

lemma LoadConfig_CommentsPath_below:
  assumes "LoadConfig_CommentsPath p = Inr q" and "plain_name slug" and "plain_name filename"
  shows "Clean q = q"
    and "FullPath (below q slug @ ''/'' @ filename) =
           repoDir @ ''/'' @ below q slug @ ''/'' @ filename"
proof -
  from LoadConfig_CommentsPath_form [OF assms(1)] consider (dot) "q = ''.''"
    | (names) names where "names \<noteq> []" "\<forall>n\<in>set names. plain_name n"
        "q = Join_strings names ''/''"
    by blast
  then have "Clean q = q \<and>
      (\<exists>names. names \<noteq> [] \<and> (\<forall>n\<in>set names. plain_name n) \<and>
         below q slug @ ''/'' @ filename = Join_strings names ''/'')"
  proof cases
    case dot
    have "below q slug @ ''/'' @ filename = Join_strings [slug, filename] ''/''"
      by (simp add: dot below_def)
    moreover have "\<forall>n\<in>set [slug, filename]. plain_name n" using assms(2,3) by simp
    ultimately show ?thesis using dot Clean_dot by blast
  next
    case names
    have "Join_strings ((names @ [slug]) @ [filename]) ''/'' =
        Join_strings (names @ [slug]) ''/'' @ ''/'' @ filename"
      by (subst Join_strings_snoc) simp
    then have "below q slug @ ''/'' @ filename =
        Join_strings ((names @ [slug]) @ [filename]) ''/''"
      unfolding names(3) below_names [OF names(1,2)] by (rule sym)
    moreover have "\<forall>n\<in>set ((names @ [slug]) @ [filename]). plain_name n"
      using names(2) assms(2,3) by simp
    moreover have "Clean q = q"
      unfolding names(3) using Clean_fixed_relative [of names 0] names(1,2) by simp
    ultimately show ?thesis by blast
  qed
  then show "Clean q = q"
    and "FullPath (below q slug @ ''/'' @ filename) =
           repoDir @ ''/'' @ below q slug @ ''/'' @ filename"
    using FullPath_names by auto
qed

text \<open>
  A successful \<open>writeComment\<close>: the three calls it made, the name it chose and the file
  it wrote.
\<close>

lemma writeComment_success:
  assumes "writeComment lib env cfg c w = (Inr relPath, w')"
  shows "\<exists>a b x rnd d.
     trace w' = trace w @
       [(Os_MkdirAll (FullPath (Join [CommentsPath cfg, Slug c])), Inr a),
        (Rand_Read 4, Inr b),
        (Os_WriteFile (FullPath relPath) d, Inr x)] \<and>
     rnd = hex (data_of b) \<and> length (data_of b) = 4 \<and>
     relPath = Join [Join [CommentsPath cfg, Slug c],
        format_stamp (now_utc env
          (trace w @ [(Os_MkdirAll (FullPath (Join [CommentsPath cfg, Slug c])), Inr a)])) @
        ''-'' @ rnd @ ''.yml''] \<and>
     yaml_Marshal lib c = Inr d \<and>
     files w' = (files w)(FullPath relPath \<mapsto> d)"
  using assms
  by (auto simp: writeComment_def os_MkdirAll_def randomHex_def rand_Read_def os_WriteFile_def
      syscall_def Let_def err_of_def split: sum.splits option.splits if_splits)

text \<open>
  Claim C7, as the code has it. A \<open>writeComment\<close> that succeeds on a comment with a
  valid slug has written the record to a file of the directory of the slug, which is
  the entry of that name below the cleaned comments path; the file is named by the
  time stamp, a hyphen, the eight hexadecimal digits of four random bytes and \<open>.yml\<close>,
  and \<open>writeComment\<close> returns its path. With a comments path that \<open>LoadConfig\<close> accepted,
  the comments path is clean already and the file is at that path below the directory
  of the repository. The file is written with \<open>os.WriteFile\<close>: when the write succeeds,
  the file holds the record whatever it held before, so that a name that is in use
  already is not an error.
\<close>

theorem writeComment_spec:
  assumes "writeComment lib env cfg c w = (Inr relPath, w')" and "isValidSlug (Slug c)"
  shows "\<exists>ts rnd d.
     relPath =
       below (Clean (CommentsPath cfg)) (Slug c) @ ''/'' @ ts @ ''-'' @ rnd @ ''.yml'' \<and>
     ts = format_stamp (now_utc env (butlast (butlast (trace w')))) \<and>
     length rnd = 8 \<and> set rnd \<subseteq> set ''0123456789abcdef'' \<and>
     (\<exists>b. last (butlast (trace w')) = (Rand_Read 4, Inr b) \<and> length (data_of b) = 4 \<and>
          rnd = hex (data_of b)) \<and>
     yaml_Marshal lib c = Inr d \<and>
     files w' = (files w)(FullPath relPath \<mapsto> d) \<and>
     (\<forall>p. LoadConfig_CommentsPath p = Inr (CommentsPath cfg) \<longrightarrow>
        Clean (CommentsPath cfg) = CommentsPath cfg \<and>
        FullPath relPath = repoDir @ ''/'' @ relPath)"
proof -
  from writeComment_success [OF assms(1)] obtain a b x rnd d where
    tr: "trace w' = trace w @
       [(Os_MkdirAll (FullPath (Join [CommentsPath cfg, Slug c])), Inr a),
        (Rand_Read 4, Inr b),
        (Os_WriteFile (FullPath relPath) d, Inr x)]"
    and rnd: "rnd = hex (data_of b)" "length (data_of b) = 4"
    and rel: "relPath = Join [Join [CommentsPath cfg, Slug c],
        format_stamp (now_utc env
          (trace w @ [(Os_MkdirAll (FullPath (Join [CommentsPath cfg, Slug c])), Inr a)])) @
        ''-'' @ rnd @ ''.yml'']"
    and d: "yaml_Marshal lib c = Inr d" "files w' = (files w)(FullPath relPath \<mapsto> d)"
    by blast
  define ts where "ts = format_stamp (now_utc env (butlast (butlast (trace w'))))"
  have bl: "butlast (butlast (trace w')) =
      trace w @ [(Os_MkdirAll (FullPath (Join [CommentsPath cfg, Slug c])), Inr a)]"
    unfolding tr by (simp add: butlast_append)
  have len: "length rnd = 8" using rnd by (simp add: hex_length)
  have "last (butlast (trace w')) = (Rand_Read 4, Inr b)"
    unfolding tr by (simp add: butlast_append)
  with rnd have bytes: "\<exists>b. last (butlast (trace w')) = (Rand_Read 4, Inr b) \<and>
      length (data_of b) = 4 \<and> rnd = hex (data_of b)"
    by blast
  have dig: "set rnd \<subseteq> set ''0123456789abcdef''" unfolding rnd(1) by (rule hex_digits)
  have slug: "plain_name (Slug c)" using assms(2) by (rule slug_plain_name)
  have name: "plain_name (ts @ ''-'' @ rnd @ ''.yml'')"
    using format_stamp_digits dig unfolding ts_def by (rule filename_plain_name)
  have path: "relPath =
      below (Clean (CommentsPath cfg)) (Slug c) @ ''/'' @ ts @ ''-'' @ rnd @ ''.yml''"
    using rel Join_names [OF slug name, of "CommentsPath cfg"] by (simp add: ts_def bl)
  have valid: "Clean (CommentsPath cfg) = CommentsPath cfg \<and>
      FullPath relPath = repoDir @ ''/'' @ relPath"
    if "LoadConfig_CommentsPath p = Inr (CommentsPath cfg)" for p
    using LoadConfig_CommentsPath_below [OF that slug name] path by simp
  from path ts_def len dig bytes d valid show ?thesis by blast
qed

lemma writeComment_occupied:
  "fst (writeComment simple_lib calm_env example_cfg example_comment occupied_world) =
     Inr ''_data/comments/my-post/20240309070502-deadbeef.yml''"
  by code_simp

text \<open>
  The claim says that a collision of names is an error and that the record that exists
  is not replaced. Here the file that \<open>writeComment\<close> chooses exists already and holds
  the record of another comment; \<open>writeComment\<close> returns the path and no error, and the
  file holds the new record.
\<close>

theorem writeComment_counterexample:
  "files occupied_world ''/app/repo/_data/comments/my-post/20240309070502-deadbeef.yml'' =
     Some ''name: Grace'' \<and>
   fst (writeComment simple_lib calm_env example_cfg example_comment occupied_world) =
     Inr ''_data/comments/my-post/20240309070502-deadbeef.yml'' \<and>
   files (snd (writeComment simple_lib calm_env example_cfg example_comment occupied_world))
     ''/app/repo/_data/comments/my-post/20240309070502-deadbeef.yml'' =
     Some (''name: Ada'' @ [CHR 0x0A] @ ''body: Nice post'' @ [CHR 0x0A] @
           ''date: 2024-03-09T07:05:02Z'' @ [CHR 0x0A] @ ''slug: my-post'' @ [CHR 0x0A])"
proof -
  have a: "files occupied_world
      ''/app/repo/_data/comments/my-post/20240309070502-deadbeef.yml'' = Some ''name: Grace''"
    by (simp add: occupied_world_def)
  note b = writeComment_occupied
  have c: "files
      (snd (writeComment simple_lib calm_env example_cfg example_comment occupied_world))
      ''/app/repo/_data/comments/my-post/20240309070502-deadbeef.yml'' =
      Some (''name: Ada'' @ [CHR 0x0A] @ ''body: Nice post'' @ [CHR 0x0A] @
            ''date: 2024-03-09T07:05:02Z'' @ [CHR 0x0A] @ ''slug: my-post'' @ [CHR 0x0A])"
    by code_simp
  show ?thesis using a b c by (intro conjI)
qed

theorem writeComment_spec_witness:
  "isValidSlug (Slug example_comment) \<and>
   LoadConfig_CommentsPath ''_data/comments'' = Inr (CommentsPath example_cfg) \<and>
   fst (writeComment simple_lib calm_env example_cfg example_comment occupied_world) =
     Inr ''_data/comments/my-post/20240309070502-deadbeef.yml'' \<and>
   (\<exists>ts rnd d.
      ''_data/comments/my-post/20240309070502-deadbeef.yml'' =
        below (Clean (CommentsPath example_cfg)) (Slug example_comment) @ ''/'' @
        ts @ ''-'' @ rnd @ ''.yml'' \<and>
      ts = format_stamp (now_utc calm_env (butlast (butlast (trace
             (snd (writeComment simple_lib calm_env example_cfg example_comment
                occupied_world)))))) \<and>
      length rnd = 8 \<and> set rnd \<subseteq> set ''0123456789abcdef'' \<and>
      (\<exists>b. last (butlast (trace
             (snd (writeComment simple_lib calm_env example_cfg example_comment
                occupied_world)))) = (Rand_Read 4, Inr b) \<and>
           length (data_of b) = 4 \<and> rnd = hex (data_of b)) \<and>
      yaml_Marshal simple_lib example_comment = Inr d \<and>
      files (snd (writeComment simple_lib calm_env example_cfg example_comment occupied_world)) =
        (files occupied_world)
          (FullPath ''_data/comments/my-post/20240309070502-deadbeef.yml'' \<mapsto> d) \<and>
      Clean (CommentsPath example_cfg) = CommentsPath example_cfg \<and>
      FullPath ''_data/comments/my-post/20240309070502-deadbeef.yml'' =
        repoDir @ ''/'' @ ''_data/comments/my-post/20240309070502-deadbeef.yml'')"
proof -
  have valid: "isValidSlug (Slug example_comment)" by code_simp
  have loaded: "LoadConfig_CommentsPath ''_data/comments'' = Inr (CommentsPath example_cfg)"
    by code_simp
  note b = writeComment_occupied
  have run: "writeComment simple_lib calm_env example_cfg example_comment occupied_world =
      (Inr ''_data/comments/my-post/20240309070502-deadbeef.yml'',
       snd (writeComment simple_lib calm_env example_cfg example_comment occupied_world))"
    using b by (simp add: prod_eq_iff)
  from writeComment_spec [OF run valid] obtain ts rnd d where
    1: "''_data/comments/my-post/20240309070502-deadbeef.yml'' =
        below (Clean (CommentsPath example_cfg)) (Slug example_comment) @ ''/'' @
        ts @ ''-'' @ rnd @ ''.yml''"
    and 2: "ts = format_stamp (now_utc calm_env (butlast (butlast (trace
             (snd (writeComment simple_lib calm_env example_cfg example_comment
                occupied_world))))))"
    and 3: "length rnd = 8" and 4: "set rnd \<subseteq> set ''0123456789abcdef''"
    and 9: "\<exists>b. last (butlast (trace
             (snd (writeComment simple_lib calm_env example_cfg example_comment
                occupied_world)))) = (Rand_Read 4, Inr b) \<and>
           length (data_of b) = 4 \<and> rnd = hex (data_of b)"
    and 5: "yaml_Marshal simple_lib example_comment = Inr d"
    and 6: "files (snd (writeComment simple_lib calm_env example_cfg example_comment
          occupied_world)) =
        (files occupied_world)
          (FullPath ''_data/comments/my-post/20240309070502-deadbeef.yml'' \<mapsto> d)"
    and 7: "\<forall>p. LoadConfig_CommentsPath p = Inr (CommentsPath example_cfg) \<longrightarrow>
        Clean (CommentsPath example_cfg) = CommentsPath example_cfg \<and>
        FullPath ''_data/comments/my-post/20240309070502-deadbeef.yml'' =
          repoDir @ ''/'' @ ''_data/comments/my-post/20240309070502-deadbeef.yml''"
    by blast
  note 8 = 7 [rule_format, OF loaded]
  have "\<exists>ts rnd d.
      ''_data/comments/my-post/20240309070502-deadbeef.yml'' =
        below (Clean (CommentsPath example_cfg)) (Slug example_comment) @ ''/'' @
        ts @ ''-'' @ rnd @ ''.yml'' \<and>
      ts = format_stamp (now_utc calm_env (butlast (butlast (trace
             (snd (writeComment simple_lib calm_env example_cfg example_comment
                occupied_world)))))) \<and>
      length rnd = 8 \<and> set rnd \<subseteq> set ''0123456789abcdef'' \<and>
      (\<exists>b. last (butlast (trace
             (snd (writeComment simple_lib calm_env example_cfg example_comment
                occupied_world)))) = (Rand_Read 4, Inr b) \<and>
           length (data_of b) = 4 \<and> rnd = hex (data_of b)) \<and>
      yaml_Marshal simple_lib example_comment = Inr d \<and>
      files (snd (writeComment simple_lib calm_env example_cfg example_comment occupied_world)) =
        (files occupied_world)
          (FullPath ''_data/comments/my-post/20240309070502-deadbeef.yml'' \<mapsto> d) \<and>
      Clean (CommentsPath example_cfg) = CommentsPath example_cfg \<and>
      FullPath ''_data/comments/my-post/20240309070502-deadbeef.yml'' =
        repoDir @ ''/'' @ ''_data/comments/my-post/20240309070502-deadbeef.yml''"
    by (rule exI [of _ ts], rule exI [of _ rnd], rule exI [of _ d])
      (intro conjI 1 2 3 4 9 5 6 8 [THEN conjunct1] 8 [THEN conjunct2])
  with valid loaded b show ?thesis by (intro conjI)
qed

section \<open>The guards of the handler\<close>

lemma origin_allowed_iff: "origin_allowed cfg origin \<longleftrightarrow> origin \<in> set (AllowedOrigins cfg)"
  by (auto simp: origin_allowed_def list_ex_iff)

lemma checkOrigin_iff:
  "checkOrigin lib cfg r \<longleftrightarrow>
     (\<exists>origin. request_origin lib r = Some origin \<and> origin \<in> set (AllowedOrigins cfg))"
  by (auto simp: checkOrigin_def request_origin_def origin_allowed_iff Let_def
      split: sum.splits)

lemma isAllowedRedirect_iff:
  "isAllowedRedirect lib cfg rawURL \<longleftrightarrow>
     (\<exists>u. url_Parse lib rawURL = Inr u \<and> Scheme u @ ''://'' @ Host u \<in> set (AllowedOrigins cfg))"
  by (auto simp: isAllowedRedirect_def origin_allowed_iff split: sum.splits)

text \<open>
  Claim C4, as the code has it. A POST whose origin (the \<open>Origin\<close> header or, when it
  is absent, the scheme and host of the \<open>Referer\<close> header) is no entry of the allow-list
  is answered with 403 and a plain-text body. A POST that passes this check, whose form
  parses and whose redirect URL is not empty after trimming and has a scheme and host
  that are no entry of the allow-list, is answered with 403 and a plain-text body,
  whatever the other fields hold. A POST that passes the origin check is answered with
  400 and a plain-text body when its form does not parse, and when its redirect URL is
  empty after trimming. In all four cases nothing is written, no command is run and
  there is no redirect.
\<close>

theorem ServeHTTP_forbidden:
  "(checkOrigin lib cfg r \<longleftrightarrow>
      (\<exists>origin. request_origin lib r = Some origin \<and> origin \<in> set (AllowedOrigins cfg))) \<and>
   (isAllowedRedirect lib cfg rawURL \<longleftrightarrow>
      (\<exists>u. url_Parse lib rawURL = Inr u \<and>
           Scheme u @ ''://'' @ Host u \<in> set (AllowedOrigins cfg))) \<and>
   (Method r = ''POST'' \<and> \<not> checkOrigin lib cfg r \<longrightarrow>
      ServeHTTP lib env cfg r w = (Http_Error ''Forbidden: origin not allowed'' 403, w)) \<and>
   (Method r = ''POST'' \<and> checkOrigin lib cfg r \<and> ParseForm r = None \<and>
    TrimSpace (FormValue r ''url'') \<noteq> [] \<and>
    \<not> isAllowedRedirect lib cfg (TrimSpace (FormValue r ''url'')) \<longrightarrow>
      ServeHTTP lib env cfg r w =
        (Http_Error ''Forbidden: redirect URL origin not allowed'' 403, w)) \<and>
   (Method r = ''POST'' \<and> checkOrigin lib cfg r \<and> ParseForm r \<noteq> None \<longrightarrow>
      ServeHTTP lib env cfg r w = (Http_Error ''Bad request'' 400, w)) \<and>
   (Method r = ''POST'' \<and> checkOrigin lib cfg r \<and> ParseForm r = None \<and>
    TrimSpace (FormValue r ''url'') = [] \<longrightarrow>
      ServeHTTP lib env cfg r w =
        (Http_Error ''Missing required fields (name, body, slug, url)'' 400, w))"
proof -
  have a: "ServeHTTP lib env cfg r w = (Http_Error ''Forbidden: origin not allowed'' 403, w)"
    if "Method r = ''POST'' \<and> \<not> checkOrigin lib cfg r"
    using that by (simp add: ServeHTTP_def)
  have b: "ServeHTTP lib env cfg r w =
      (Http_Error ''Forbidden: redirect URL origin not allowed'' 403, w)"
    if "Method r = ''POST'' \<and> checkOrigin lib cfg r \<and> ParseForm r = None \<and>
        TrimSpace (FormValue r ''url'') \<noteq> [] \<and>
        \<not> isAllowedRedirect lib cfg (TrimSpace (FormValue r ''url''))"
    using that by (simp add: ServeHTTP_def Let_def)
  have c: "ServeHTTP lib env cfg r w = (Http_Error ''Bad request'' 400, w)"
    if "Method r = ''POST'' \<and> checkOrigin lib cfg r \<and> ParseForm r \<noteq> None"
    using that by (simp add: ServeHTTP_def)
  have d: "ServeHTTP lib env cfg r w =
      (Http_Error ''Missing required fields (name, body, slug, url)'' 400, w)"
    if "Method r = ''POST'' \<and> checkOrigin lib cfg r \<and> ParseForm r = None \<and>
        TrimSpace (FormValue r ''url'') = []"
    using that by (simp add: ServeHTTP_def Let_def errorRedirect_def)
  show ?thesis
    using a b c d checkOrigin_iff [of lib cfg r] isAllowedRedirect_iff [of lib cfg rawURL]
    by blast
qed

text \<open>
  The claim says 403 for every request whose redirect URL has a foreign scheme and
  host. This request names such a URL, its origin is allowed, and its form does not
  parse (the body is over the limit): the answer is 400.
\<close>

theorem ServeHTTP_forbidden_counterexample:
  "FormValue unparsed_request ''url'' = ''http://evil.example/page'' \<and>
   \<not> isAllowedRedirect simple_lib example_cfg ''http://evil.example/page'' \<and>
   ServeHTTP simple_lib calm_env example_cfg unparsed_request empty_world =
     (Http_Error ''Bad request'' 400, empty_world)"
proof -
  have a: "FormValue unparsed_request ''url'' = ''http://evil.example/page''"
    by code_simp
  have b: "\<not> isAllowedRedirect simple_lib example_cfg ''http://evil.example/page''"
    by code_simp
  have c: "Method unparsed_request = ''POST'' \<and> checkOrigin simple_lib example_cfg unparsed_request \<and>
           ParseForm unparsed_request \<noteq> None"
    by code_simp
  then have "ServeHTTP simple_lib calm_env example_cfg unparsed_request empty_world =
      (Http_Error ''Bad request'' 400, empty_world)"
    by (simp add: ServeHTTP_def)
  with a b show ?thesis by (intro conjI)
qed

theorem ServeHTTP_forbidden_witness:
  "ServeHTTP simple_lib calm_env example_cfg
     ((form_request [(''name'', ''Ada''), (''url'', ''https://example.com/p'')])
        \<lparr>Header := (\<lambda>k. if k = ''Referer'' then ''http://evil.example/form'' else [])\<rparr>)
     empty_world = (Http_Error ''Forbidden: origin not allowed'' 403, empty_world) \<and>
   ServeHTTP simple_lib calm_env example_cfg
     (form_request [(''name'', ''Ada''), (''url'', '' http://evil.example/page '')])
     empty_world = (Http_Error ''Forbidden: redirect URL origin not allowed'' 403, empty_world) \<and>
   ServeHTTP simple_lib calm_env example_cfg unparsed_request empty_world =
     (Http_Error ''Bad request'' 400, empty_world) \<and>
   ServeHTTP simple_lib calm_env example_cfg
     (form_request [(''name'', ''Ada''), (''body'', ''Nice post''), (''slug'', ''my-post'')])
     empty_world =
     (Http_Error ''Missing required fields (name, body, slug, url)'' 400, empty_world)"
proof -
  let ?foreign = "(form_request [(''name'', ''Ada''), (''url'', ''https://example.com/p'')])
      \<lparr>Header := (\<lambda>k. if k = ''Referer'' then ''http://evil.example/form'' else [])\<rparr>"
  let ?away = "form_request [(''name'', ''Ada''), (''url'', '' http://evil.example/page '')]"
  let ?nourl =
    "form_request [(''name'', ''Ada''), (''body'', ''Nice post''), (''slug'', ''my-post'')]"
  have h1: "Method ?foreign = ''POST'' \<and> \<not> checkOrigin simple_lib example_cfg ?foreign"
    by code_simp
  have h2: "Method ?away = ''POST'' \<and> checkOrigin simple_lib example_cfg ?away \<and>
      ParseForm ?away = None \<and> TrimSpace (FormValue ?away ''url'') \<noteq> [] \<and>
      \<not> isAllowedRedirect simple_lib example_cfg (TrimSpace (FormValue ?away ''url''))"
    by code_simp
  have h3: "Method unparsed_request = ''POST'' \<and>
      checkOrigin simple_lib example_cfg unparsed_request \<and> ParseForm unparsed_request \<noteq> None"
    by code_simp
  have h4: "Method ?nourl = ''POST'' \<and> checkOrigin simple_lib example_cfg ?nourl \<and>
      ParseForm ?nourl = None \<and> TrimSpace (FormValue ?nourl ''url'') = []"
    by code_simp
  note rest = ServeHTTP_forbidden [THEN conjunct2, THEN conjunct2]
  show ?thesis
    using rest [THEN conjunct1, THEN mp, OF h1]
      rest [THEN conjunct2, THEN conjunct1, THEN mp, OF h2]
      rest [THEN conjunct2, THEN conjunct2, THEN conjunct1, THEN mp, OF h3]
      rest [THEN conjunct2, THEN conjunct2, THEN conjunct2, THEN mp, OF h4]
    by (intro conjI)
qed

section \<open>The length of the body\<close>












section \<open>Cloning\<close>

lemma run_clone:
  "run env cfg ''/app'' ''git'' (cloneArgs cfg) w =
     (err_of (sys env (trace w) (clone_call cfg)),
      w\<lparr>trace := trace w @ [(clone_call cfg, sys env (trace w) (clone_call cfg))]\<rparr>)"
  by (simp add: run_def cmd_Run_def syscall_def clone_call_def Let_def)

lemma Join_git_dir: "Join [repoDir, ''.git''] = ''/app/repo/.git''"
  by code_simp

lemma Clone_configure_shape:
  assumes "Clone_configure env cfg None w = (r, w')"
  shows "\<exists>tr. trace w' = trace w @ tr \<and> identity_shape cfg tr r"
  using assms
  by (auto simp: Clone_configure_def run_git Let_def err_of_def
      split: sum.splits
      intro: identity_shape.intros [unfolded email_call_def name_call_def, simplified])

lemma refreshHostKeys_shape:
  assumes "refreshHostKeys lib env cfg w = (ke, w')"
  shows "\<exists>kt. trace w' = trace w @ kt \<and>
           refresh_shape cfg (extractHost lib (GitRepo cfg)) kt ke"
  using assms
  by (auto simp: refreshHostKeys_def scanAndWriteHostKeys_def scan_unfold
      Dir_knownHostsPath [unfolded knownHostsPath_def]
      os_MkdirAll_def os_WriteFile_def syscall_def knownHostsPath_def Let_def err_of_def
      split: sum.splits if_splits
      intro: refresh_shape.intros [unfolded keys_dir_call_def keys_write_call_def, simplified])

lemma Clone_retry_shape:
  assumes "Clone_retry lib env cfg e w = (r, w')" and "\<not> SSHInsecure cfg"
  shows "\<exists>tr. trace w' = trace w @ tr \<and>
     ((\<exists>ke. refresh_shape cfg (extractHost lib (GitRepo cfg)) tr (Some ke) \<and>
            r = Some (''git clone: '' @ e)) \<or>
      (\<exists>kt rt. tr = kt @ rt \<and> refresh_shape cfg (extractHost lib (GitRepo cfg)) kt None \<and>
            retry_shape cfg rt r))"
proof -
  obtain ke w1 where k: "refreshHostKeys lib env cfg w = (ke, w1)" by (cases "refreshHostKeys lib env cfg w")
  from refreshHostKeys_shape [OF k] obtain kt where
    kt: "trace w1 = trace w @ kt" "refresh_shape cfg (extractHost lib (GitRepo cfg)) kt ke"
    by blast
  show ?thesis
  proof (cases ke)
    case (Some se)
    with assms(1) k have "r = Some (''git clone: '' @ e)" "w' = w1"
      by (simp_all add: Clone_retry_def)
    with kt Some show ?thesis by blast
  next
    case None
    have "\<exists>rt. trace w' = trace w1 @ rt \<and> retry_shape cfg rt r"
    proof (cases "sys env (trace w1) remove_call")
      case (Inl re)
      with assms(1) k None show ?thesis
        by (auto simp: Clone_retry_def os_RemoveAll_def syscall_def remove_call_def
            repoDir_def Let_def
            intro: retry_shape.remove_failed [unfolded remove_call_def, simplified])
    next
      case (Inr v)
      define w2 where "w2 = snd (os_RemoveAll env repoDir w1)"
      have rm: "os_RemoveAll env repoDir w1 = (None, w2)"
        and t2: "trace w2 = trace w1 @ [(remove_call, Inr v)]"
        using Inr
        by (simp_all add: w2_def os_RemoveAll_def syscall_def remove_call_def repoDir_def
            Let_def)
      show ?thesis
      proof (cases "sys env (trace w2) mkdir_call")
        case (Inl me)
        with assms(1) k None rm t2 show ?thesis
          by (auto simp: Clone_retry_def os_MkdirAll_def syscall_def mkdir_call_def
              repoDir_def Let_def err_of_def
              intro: retry_shape.create_failed [unfolded mkdir_call_def, simplified])
      next
        case (Inr d)
        define w3 where "w3 = snd (os_MkdirAll env repoDir w2)"
        have mk: "os_MkdirAll env repoDir w2 = (None, w3)"
          and t3: "trace w3 = trace w2 @ [(mkdir_call, Inr d)]"
          using Inr
          by (simp_all add: w3_def os_MkdirAll_def syscall_def mkdir_call_def repoDir_def
              Let_def err_of_def)
        show ?thesis
        proof (cases "sys env (trace w3) (clone_call cfg)")
          case (Inl ce)
          with assms(1) k None rm mk have "r = Some (''git clone: '' @ ce)"
            and "trace w' = trace w3 @ [(clone_call cfg, Inl ce)]"
            by (auto simp: Clone_retry_def run_clone Clone_configure_def err_of_def)
          then show ?thesis
            using t2 t3 retry_shape.retry_failed [of cfg v d ce] by simp
        next
          case (Inr c)
          define w4 where "w4 = w3\<lparr>trace := trace w3 @ [(clone_call cfg, Inr c)]\<rparr>"
          from assms(1) k None rm mk Inr have "Clone_configure env cfg None w4 = (r, w')"
            by (simp add: Clone_retry_def run_clone err_of_def w4_def)
          from Clone_configure_shape [OF this] obtain tr where
            "trace w' = trace w4 @ tr" "identity_shape cfg tr r"
            by blast
          then show ?thesis
            using t2 t3 retry_shape.retry_cloned [of cfg tr r v d c] by (simp add: w4_def)
        qed
      qed
    qed
    then obtain rt where "trace w' = trace w1 @ rt" "retry_shape cfg rt r" by blast
    with kt None show ?thesis by auto
  qed
qed

lemma Clone_trace_shape:
  assumes "ensureHostKeys lib env cfg w = (warn, w0)" and "Clone lib env cfg w = (r, w')"
  shows "\<exists>tr. trace w' = trace w0 @ tr \<and> Clone_shape cfg (extractHost lib (GitRepo cfg)) tr r"
proof -
  let ?host = "extractHost lib (GitRepo cfg)"
  define st where "st = sys env (trace w0) stat_call"
  define w1 where "w1 = w0\<lparr>trace := trace w0 @ [(stat_call, st)]\<rparr>"
  have stat: "os_Stat env (Join [repoDir, ''.git'']) w0 = (err_of st, w1)"
    by (simp add: os_Stat_def syscall_def Join_git_dir stat_call_def st_def w1_def Let_def)
  show ?thesis
  proof (cases st)
    case (Inr v)
    define p where "p = sys env (trace w1) (pull_call cfg)"
    from assms stat Inr have "r = err_of p"
      and "trace w' = trace w1 @ [(pull_call cfg, p)]"
      by (auto simp: Clone_def pullLocked_def run_git err_of_def pull_call_def p_def)
    then show ?thesis
      using Inr Clone_shape.pulled [of cfg ?host v p] by (simp add: w1_def)
  next
    case (Inl s)
    define m where "m = sys env (trace w1) mkdir_call"
    define w2 where "w2 = w1\<lparr>trace := trace w1 @ [(mkdir_call, m)]\<rparr>"
    have mk: "os_MkdirAll env repoDir w1 = (err_of m, w2)"
      by (simp add: os_MkdirAll_def syscall_def mkdir_call_def repoDir_def m_def w2_def
          Let_def)
    have rest: "Clone lib env cfg w =
        (case err_of m of
           Some e \<Rightarrow> (Some (''creating repo dir: '' @ e), w2)
         | None \<Rightarrow>
             (let (err, w3) = run env cfg ''/app'' ''git'' (cloneArgs cfg) w2
              in case err of
                   Some e \<Rightarrow>
                     if \<not> SSHInsecure cfg then Clone_retry lib env cfg e w3
                     else Clone_configure env cfg err w3
                 | None \<Rightarrow> Clone_configure env cfg err w3))"
      using assms(1) stat mk Inl by (simp add: Clone_def err_of_def)
    show ?thesis
    proof (cases m)
      case (Inl e)
      with rest assms(2) have "r = Some (''creating repo dir: '' @ e)" "w' = w2"
        by (simp_all add: err_of_def)
      then show ?thesis
        using Inl \<open>st = Inl s\<close> Clone_shape.no_directory [of cfg ?host s e]
        by (simp add: w2_def w1_def)
    next
      case (Inr d)
      define c where "c = sys env (trace w2) (clone_call cfg)"
      define w3 where "w3 = w2\<lparr>trace := trace w2 @ [(clone_call cfg, c)]\<rparr>"
      have t3: "trace w3 = trace w0 @ [(stat_call, Inl s), (mkdir_call, Inr d), (clone_call cfg, c)]"
        using Inr \<open>st = Inl s\<close> by (simp add: w3_def w2_def w1_def)
      have full: "Clone lib env cfg w =
          (case err_of c of
             Some e \<Rightarrow>
               if \<not> SSHInsecure cfg then Clone_retry lib env cfg e w3
               else Clone_configure env cfg (err_of c) w3
           | None \<Rightarrow> Clone_configure env cfg (err_of c) w3)"
      proof -
        from Inr have "err_of m = None" by (simp add: err_of_def)
        moreover have "run env cfg ''/app'' ''git'' (cloneArgs cfg) w2 = (err_of c, w3)"
          by (simp add: run_clone c_def w3_def)
        ultimately show ?thesis using rest by simp
      qed
      note rest' = full [unfolded assms(2)]
      show ?thesis
      proof (cases c)
        case (Inr v)
        with rest' have "Clone_configure env cfg None w3 = (r, w')" by (simp add: err_of_def)
        from Clone_configure_shape [OF this] obtain tr where
          "trace w' = trace w3 @ tr" "identity_shape cfg tr r"
          by blast
        then show ?thesis
          using t3 Inr Clone_shape.cloned [of cfg tr r ?host s d v] by simp
      next
        case (Inl e)
        show ?thesis
        proof (cases "SSHInsecure cfg")
          case True
          with rest' Inl have "r = Some (''git clone: '' @ e)" "w' = w3"
            by (simp_all add: err_of_def Clone_configure_def)
          then show ?thesis
            using t3 Inl Clone_shape.clone_failed [OF True, of ?host s d e] by simp
        next
          case False
          with rest' Inl have "Clone_retry lib env cfg e w3 = (r, w')"
            by (simp add: err_of_def)
          from Clone_retry_shape [OF this False] obtain tr where
            tr: "trace w' = trace w3 @ tr"
            and "(\<exists>ke. refresh_shape cfg ?host tr (Some ke) \<and> r = Some (''git clone: '' @ e)) \<or>
                 (\<exists>kt rt. tr = kt @ rt \<and> refresh_shape cfg ?host kt None \<and>
                    retry_shape cfg rt r)"
            by blast
          then consider (refresh) ke where "refresh_shape cfg ?host tr (Some ke)"
              "r = Some (''git clone: '' @ e)"
            | (retry) kt rt where "tr = kt @ rt" "refresh_shape cfg ?host kt None"
              "retry_shape cfg rt r"
            by blast
          then show ?thesis
          proof cases
            case refresh
            then show ?thesis
              using tr t3 Inl Clone_shape.refresh_failed [OF False, of ?host tr ke s d e]
              by simp
          next
            case retry
            then show ?thesis
              using tr t3 Inl Clone_shape.retried [OF False, of ?host kt rt r s d e]
              by simp
          qed
        qed
      qed
    qed
  qed
qed

text \<open>What the shapes say about the number of clones and about success.\<close>

lemma clone_call_distinct:
  "email_call cfg \<noteq> clone_call cfg" "name_call cfg \<noteq> clone_call cfg"
  "pull_call cfg \<noteq> clone_call cfg" "stat_call \<noteq> clone_call cfg"
  "mkdir_call \<noteq> clone_call cfg" "remove_call \<noteq> clone_call cfg"
  "scan_call host \<noteq> clone_call cfg" "keys_dir_call \<noteq> clone_call cfg"
  "keys_write_call out \<noteq> clone_call cfg"
  by (simp_all add: email_call_def name_call_def pull_call_def stat_call_def mkdir_call_def
      remove_call_def scan_call_def keys_dir_call_def keys_write_call_def clone_call_def
      git_call_def repoDir_def)

lemma identity_shape_clones:
  "identity_shape cfg tr r \<Longrightarrow> filter (\<lambda>ca. fst ca = clone_call cfg) tr = []"
  by (induction rule: identity_shape.induct) (simp_all add: clone_call_distinct)

lemma refresh_shape_clones:
  "refresh_shape cfg host tr r \<Longrightarrow> filter (\<lambda>ca. fst ca = clone_call cfg) tr = []"
  by (induction rule: refresh_shape.induct) (simp_all add: clone_call_distinct)

lemma retry_shape_clones:
  "retry_shape cfg tr r \<Longrightarrow> length (filter (\<lambda>ca. fst ca = clone_call cfg) tr) \<le> 1"
  by (induction rule: retry_shape.induct)
    (simp_all add: clone_call_distinct identity_shape_clones)

lemma Clone_shape_clones:
  "Clone_shape cfg host tr r \<Longrightarrow>
   length (filter (\<lambda>ca. fst ca = clone_call cfg) tr) \<le> (if SSHInsecure cfg then 1 else 2)"
  by (induction rule: Clone_shape.induct)
    (auto simp: clone_call_distinct identity_shape_clones refresh_shape_clones
      dest: retry_shape_clones)

lemma identity_shape_None:
  "identity_shape cfg tr None \<Longrightarrow>
   \<exists>v v'. tr = [(email_call cfg, Inr v), (name_call cfg, Inr v')]"
  by (auto elim: identity_shape.cases)

lemma retry_shape_None:
  assumes "retry_shape cfg tr None"
  shows "\<exists>pre v v'. tr = pre @ [(email_call cfg, Inr v), (name_call cfg, Inr v')]"
  using assms
proof (cases rule: retry_shape.cases)
  case (retry_cloned tr' v d c)
  with identity_shape_None [of cfg tr'] show ?thesis by auto
qed

lemma Clone_shape_None:
  assumes "Clone_shape cfg host tr None"
  shows "(\<exists>v v'. tr = [(stat_call, Inr v), (pull_call cfg, Inr v')]) \<or>
         (\<exists>pre v v'. tr = pre @ [(email_call cfg, Inr v), (name_call cfg, Inr v')])"
  using assms
proof (cases rule: Clone_shape.cases)
  case (pulled v p)
  then show ?thesis by (cases p) (simp_all add: err_of_def)
next
  case (cloned tr' s d c)
  with identity_shape_None [of cfg tr'] show ?thesis by auto
next
  case (retried kt tr' s d e)
  from retry_shape_None [OF retried(4)] obtain pre v v' where
    "tr' = pre @ [(email_call cfg, Inr v), (name_call cfg, Inr v')]"
    by blast
  with retried(1) have "tr = ((stat_call, Inl s) # (mkdir_call, Inr d) #
      (clone_call cfg, Inl e) # kt @ pre) @ [(email_call cfg, Inr v), (name_call cfg, Inr v')]"
    by simp
  then show ?thesis by blast
qed

text \<open>
  Claim C5. What \<open>Clone\<close> adds to the trace after it has ensured the host keys begins
  with the test for a working copy. When the working copy exists, a pull follows and
  nothing else, and \<open>Clone\<close> returns the result of the pull. Otherwise the directory is
  created and the clone of the one configured branch is run; when it fails and the host
  keys are checked, the keys are refreshed, the directory is removed and created again,
  and the clone is run a second time, and never a third time; \<open>Clone\<close> returns an error
  when the refresh fails and when the second clone fails, and it stops after the first
  clone when the host keys are not checked. After a clone that succeeded the two
  commands that set the identity of the commits are run. A \<open>Clone\<close> without error has
  pulled, or has ended with the two commands of the identity, both successful.
\<close>

theorem Clone_spec:
  assumes "ensureHostKeys lib env cfg w = (warn, w0)" and "Clone lib env cfg w = (r, w')"
  shows "clone_call cfg =
       Cmd_Run ''/app'' (''GIT_SSH_COMMAND='' @ sshCommand cfg) ''git''
         [''clone'', ''--branch'', Branch cfg, ''--single-branch'', GitRepo cfg, ''/app/repo''] \<and>
     (\<exists>tr. trace w' = trace w0 @ tr \<and>
        Clone_shape cfg (extractHost lib (GitRepo cfg)) tr r \<and>
        length (filter (\<lambda>ca. fst ca = clone_call cfg) tr) \<le> (if SSHInsecure cfg then 1 else 2) \<and>
        (r = None \<longrightarrow>
           (\<exists>v v'. tr = [(stat_call, Inr v), (pull_call cfg, Inr v')]) \<or>
           (\<exists>pre v v'. tr = pre @ [(email_call cfg, Inr v), (name_call cfg, Inr v')])))"
proof -
  from Clone_trace_shape [OF assms] obtain tr where
    tr: "trace w' = trace w0 @ tr" "Clone_shape cfg (extractHost lib (GitRepo cfg)) tr r"
    by blast
  have "length (filter (\<lambda>ca. fst ca = clone_call cfg) tr) \<le> (if SSHInsecure cfg then 1 else 2)"
    using tr(2) by (rule Clone_shape_clones)
  moreover have "(\<exists>v v'. tr = [(stat_call, Inr v), (pull_call cfg, Inr v')]) \<or>
      (\<exists>pre v v'. tr = pre @ [(email_call cfg, Inr v), (name_call cfg, Inr v')])"
    if "r = None"
    using tr(2) unfolding that by (rule Clone_shape_None)
  moreover have "clone_call cfg =
       Cmd_Run ''/app'' (''GIT_SSH_COMMAND='' @ sshCommand cfg) ''git''
         [''clone'', ''--branch'', Branch cfg, ''--single-branch'', GitRepo cfg, ''/app/repo'']"
    by (simp add: clone_call_def cloneArgs_def repoDir_def)
  ultimately show ?thesis using tr by blast
qed

lemma stale_key_result:
  "fst (Clone simple_lib stale_key_env example_cfg github_world) = None"
  by code_simp

lemma stale_key_trace:
  "trace (snd (Clone simple_lib stale_key_env example_cfg github_world)) =
     [(stat_call, Inl ''stat /app/repo/.git: no such file or directory''),
      (mkdir_call, Inr Done),
      (clone_call example_cfg, Inl ''exit status 128''),
      (scan_call ''github.com'',
       Inr (Data (''git.example.org ssh-ed25519 AAAAC3Nz'' @ [CHR 0x0A]))),
      (keys_dir_call, Inr Done),
      (keys_write_call (''git.example.org ssh-ed25519 AAAAC3Nz'' @ [CHR 0x0A]), Inr Done),
      (remove_call, Inr Done),
      (mkdir_call, Inr Done),
      (clone_call example_cfg, Inr Done),
      (email_call example_cfg, Inr Done),
      (name_call example_cfg, Inr Done)]"
  by code_simp

theorem Clone_spec_witness:
  "fst (ensureHostKeys simple_lib stale_key_env example_cfg github_world) = None \<and>
   fst (Clone simple_lib stale_key_env example_cfg github_world) = None \<and>
   Clone_shape example_cfg ''github.com''
     [(stat_call, Inl ''stat /app/repo/.git: no such file or directory''),
      (mkdir_call, Inr Done),
      (clone_call example_cfg, Inl ''exit status 128''),
      (scan_call ''github.com'',
       Inr (Data (''git.example.org ssh-ed25519 AAAAC3Nz'' @ [CHR 0x0A]))),
      (keys_dir_call, Inr Done),
      (keys_write_call (''git.example.org ssh-ed25519 AAAAC3Nz'' @ [CHR 0x0A]), Inr Done),
      (remove_call, Inr Done),
      (mkdir_call, Inr Done),
      (clone_call example_cfg, Inr Done),
      (email_call example_cfg, Inr Done),
      (name_call example_cfg, Inr Done)]
     None"
proof -
  let ?run = "Clone simple_lib stale_key_env example_cfg github_world"
  have host: "extractHost simple_lib (GitRepo example_cfg) = ''github.com''"
    by code_simp
  have known: "hostInKnownHosts ''github.com'' github_world" by code_simp
  have strict: "\<not> SSHInsecure example_cfg" by (simp add: example_cfg_def)
  have keys: "ensureHostKeys simple_lib stale_key_env example_cfg github_world =
      (None, github_world)"
    using known strict by (simp add: ensureHostKeys_def host Let_def)
  have start: "trace github_world = []" by (simp add: github_world_def)
  have run: "?run = (None, snd ?run)"
    using stale_key_result by (simp add: prod_eq_iff)
  from Clone_spec [OF keys run, THEN conjunct2] obtain tr where
    "trace (snd ?run) = trace github_world @ tr"
    and shape: "Clone_shape example_cfg (extractHost simple_lib (GitRepo example_cfg)) tr None"
    by blast
  then have "tr =
     [(stat_call, Inl ''stat /app/repo/.git: no such file or directory''),
      (mkdir_call, Inr Done),
      (clone_call example_cfg, Inl ''exit status 128''),
      (scan_call ''github.com'',
       Inr (Data (''git.example.org ssh-ed25519 AAAAC3Nz'' @ [CHR 0x0A]))),
      (keys_dir_call, Inr Done),
      (keys_write_call (''git.example.org ssh-ed25519 AAAAC3Nz'' @ [CHR 0x0A]), Inr Done),
      (remove_call, Inr Done),
      (mkdir_call, Inr Done),
      (clone_call example_cfg, Inr Done),
      (email_call example_cfg, Inr Done),
      (name_call example_cfg, Inr Done)]"
    unfolding start stale_key_trace by simp
  with shape host have "Clone_shape example_cfg ''github.com''
     [(stat_call, Inl ''stat /app/repo/.git: no such file or directory''),
      (mkdir_call, Inr Done),
      (clone_call example_cfg, Inl ''exit status 128''),
      (scan_call ''github.com'',
       Inr (Data (''git.example.org ssh-ed25519 AAAAC3Nz'' @ [CHR 0x0A]))),
      (keys_dir_call, Inr Done),
      (keys_write_call (''git.example.org ssh-ed25519 AAAAC3Nz'' @ [CHR 0x0A]), Inr Done),
      (remove_call, Inr Done),
      (mkdir_call, Inr Done),
      (clone_call example_cfg, Inr Done),
      (email_call example_cfg, Inr Done),
      (name_call example_cfg, Inr Done)]
     None"
    by (simp only:)
  moreover have "fst (ensureHostKeys simple_lib stale_key_env example_cfg github_world) = None"
    using keys by simp
  ultimately show ?thesis using stale_key_result by (intro conjI)
qed

end
